theory Spec2Isabelle
  imports Main "HOL-Library.AList"
begin

section \<open>JavaScript values\<close>

text \<open>The values that the store, the persisted blob and a control's value hold. A string
  is the sequence of its UTF-16 code units, each written as the one to three bytes of
  its UTF-8 form, so that an ASCII string is itself. A number is an integer (\<open>JNum\<close>) or,
  when its JSON numeral has a fraction or an exponent, that numeral as written (\<open>JDec\<close>):
  the rounding of numerals to doubles is modelled for their truth value only. An object
  is a plain object: the list of its own properties in insertion order, over
  \<open>Object.prototype\<close>; \<open>AList.update\<close> assigns an own property as JavaScript does, in place
  when the key exists and at the end otherwise. \<open>JFun\<close> is a built-in function of the
  platform, by its name.\<close>

datatype jsval =
    JUndefined
  | JNull
  | JBool bool
  | JNum int
  | JDec string
  | JStr string
  | JArr "jsval list"
  | JObj "(string \<times> jsval) list"
  | JFun string

datatype error = ReferenceError | SyntaxError | TypeError

text \<open>A numeral with a fraction or an exponent denotes \<open>m * 10 ^ e\<close> for the digits \<open>m\<close> of
  its integer and fraction parts and its exponent less the length of the fraction, \<open>e\<close>.
  Read as a double, rounding to nearest with ties to even, it is zero when that value is
  at most \<open>2 ^ -1075\<close>, half the least positive double.\<close>

definition is_digit :: "char \<Rightarrow> bool" where
  "is_digit c = (48 \<le> (of_char c :: nat) \<and> (of_char c :: nat) \<le> 57)"

definition digit_val :: "char \<Rightarrow> nat" where
  "digit_val c = of_char c - 48"

definition digits_val :: "string \<Rightarrow> nat" where
  "digits_val ds = foldl (\<lambda>n c. 10 * n + digit_val c) 0 ds"

definition mantissa_exponent :: "string \<Rightarrow> nat \<times> int" where
  "mantissa_exponent s =
     (let unsigned = (case s of [] \<Rightarrow> [] | c # r \<Rightarrow> if c = CHR ''-'' then r else s);
          whole = takeWhile is_digit unsigned;
          r1 = dropWhile is_digit unsigned;
          (frac, r2) =
            (case r1 of
               [] \<Rightarrow> ([], [])
             | c # r \<Rightarrow>
                 if c = CHR ''.'' then (takeWhile is_digit r, dropWhile is_digit r) else ([], r1));
          ex =
            (case r2 of
               [] \<Rightarrow> 0
             | c # r \<Rightarrow>
                 (case r of
                    [] \<Rightarrow> 0
                  | sg # r' \<Rightarrow>
                      if sg = CHR ''-'' then - int (digits_val (takeWhile is_digit r'))
                      else if sg = CHR ''+'' then int (digits_val (takeWhile is_digit r'))
                      else int (digits_val (takeWhile is_digit r))))
      in (digits_val (whole @ frac), ex - int (length frac)))"

definition reads_as_zero :: "string \<Rightarrow> bool" where
  "reads_as_zero s =
     (case mantissa_exponent s of
        (m, e) \<Rightarrow> m = 0 \<or> (e < 0 \<and> int m * 2 ^ 1075 \<le> 10 ^ nat (- e)))"

text \<open>\<open>ToBoolean\<close>, the test behind \<open>if (x)\<close>, \<open>!x\<close> and \<open>x || y\<close>.\<close>

fun truthy :: "jsval \<Rightarrow> bool" where
  "truthy JUndefined = False"
| "truthy JNull = False"
| "truthy (JBool b) = b"
| "truthy (JNum n) = (n \<noteq> 0)"
| "truthy (JDec s) = (\<not> reads_as_zero s)"
| "truthy (JStr s) = (s \<noteq> [])"
| "truthy (JArr xs) = True"
| "truthy (JObj ps) = True"
| "truthy (JFun f) = True"

fun is_object :: "jsval \<Rightarrow> bool" where
  "is_object (JObj ps) = True"
| "is_object v = False"

text \<open>The value under a key in a list of entries, \<open>undefined\<close> when there is none: \<open>get\<close>
  of a \<open>Map\<close>, and the own property of an object.\<close>

definition own_prop :: "(string \<times> jsval) list \<Rightarrow> string \<Rightarrow> jsval" where
  "own_prop ps k = (case map_of ps k of None \<Rightarrow> JUndefined | Some v \<Rightarrow> v)"

text \<open>The properties of \<open>Object.prototype\<close>, which every plain object inherits: eleven
  built-in functions, and under \<open>__proto__\<close> the prototype itself, which reads as an object
  without own enumerable properties.\<close>

definition Object_prototype :: "(string \<times> jsval) list" where
  "Object_prototype =
     [(''constructor'', JFun ''Object''),
      (''__defineGetter__'', JFun ''__defineGetter__''),
      (''__defineSetter__'', JFun ''__defineSetter__''),
      (''hasOwnProperty'', JFun ''hasOwnProperty''),
      (''__lookupGetter__'', JFun ''__lookupGetter__''),
      (''__lookupSetter__'', JFun ''__lookupSetter__''),
      (''isPrototypeOf'', JFun ''isPrototypeOf''),
      (''propertyIsEnumerable'', JFun ''propertyIsEnumerable''),
      (''toString'', JFun ''toString''),
      (''valueOf'', JFun ''valueOf''),
      (''__proto__'', JObj []),
      (''toLocaleString'', JFun ''toLocaleString'')]"

text \<open>\<open>o[k]\<close> on a plain object with the own properties \<open>ps\<close>: the own property when there
  is one, even if its value is \<open>undefined\<close>, and the property of \<open>Object.prototype\<close>
  otherwise.\<close>

definition obj_prop :: "(string \<times> jsval) list \<Rightarrow> string \<Rightarrow> jsval" where
  "obj_prop ps k = (case map_of ps k of None \<Rightarrow> own_prop Object_prototype k | Some v \<Rightarrow> v)"

text \<open>\<open>o[k] = v\<close> on a plain object: an own property is assigned or added, except that
  \<open>__proto__\<close>, when it is not an own property, is the accessor of \<open>Object.prototype\<close>, which
  changes no own property.\<close>

definition assign :: "(string \<times> jsval) list \<Rightarrow> string \<Rightarrow> jsval \<Rightarrow> (string \<times> jsval) list" where
  "assign ps k v = (if k = ''__proto__'' \<and> map_of ps k = None then ps else AList.update k v ps)"

text \<open>Reading \<open>v[k]\<close> raises \<open>TypeError\<close> on \<open>null\<close> and \<open>undefined\<close>. On an array, a string,
  a number, a boolean and a built-in function it yields \<open>undefined\<close>: that is what the
  names that the manager reads off a snapshot (\<open>value\<close>, \<open>controls\<close>, \<open>valid\<close>, \<open>dirty\<close>,
  \<open>disabled\<close>, \<open>errors\<close>) give there; the indices, the length and the methods of such a
  value are not modelled, and the statements below read a caller's name off objects only.
  Assigning \<open>v[k] = x\<close> raises \<open>TypeError\<close> on \<open>null\<close>, \<open>undefined\<close> and, in the strict mode of
  a module, on a primitive; on an array it adds a property that \<open>JSON.stringify\<close> does not
  write (an index and the length apart, which are not modelled).\<close>

fun get_prop :: "jsval \<Rightarrow> string \<Rightarrow> error + jsval" where
  "get_prop JUndefined k = Inl TypeError"
| "get_prop JNull k = Inl TypeError"
| "get_prop (JObj ps) k = Inr (obj_prop ps k)"
| "get_prop v k = Inr JUndefined"

fun set_prop :: "jsval \<Rightarrow> string \<Rightarrow> jsval \<Rightarrow> error + jsval" where
  "set_prop (JObj ps) k v = Inr (JObj (assign ps k v))"
| "set_prop (JArr xs) k v = Inr (JArr xs)"
| "set_prop (JFun f) k v = Inr (JFun f)"
| "set_prop u k v = Inl TypeError"

section \<open>JSON\<close>

text \<open>\<open>JSON.stringify\<close> and \<open>JSON.parse\<close> of the platform, over the values above.
  \<open>JSON.stringify\<close> writes own properties only; it leaves out a property whose value is
  \<open>undefined\<close> or a function, and writes \<open>null\<close> for such an element of an array. Three
  things it does are not modelled: it lists integer-like keys first, it writes a number
  in its shortest form (here a numeral kept as text is written as it was read), and,
  since ECMAScript 2019, it escapes a surrogate that has no partner. The parser follows
  the JSON grammar by recursive descent; its first argument bounds the number of nested
  calls, and \<open>JSON_parse\<close> sets it to one more than the length of the text, which is
  enough for every text (lemma \<open>JSON_parse_fuel\<close>).\<close>

definition digit_char :: "nat \<Rightarrow> char" where
  "digit_char d = char_of (48 + d)"

fun digits :: "nat \<Rightarrow> string" where
  "digits n = (if n < 10 then [digit_char n] else digits (n div 10) @ [digit_char (n mod 10)])"

definition show_int :: "int \<Rightarrow> string" where
  "show_int i = (if i < 0 then CHR ''-'' # digits (nat (- i)) else digits (nat i))"

definition hex_char :: "nat \<Rightarrow> char" where
  "hex_char d = (if d < 10 then char_of (48 + d) else char_of (87 + d))"

definition escape_char :: "char \<Rightarrow> string" where
  "escape_char c =
     (if c = CHR 0x22 then [CHR 0x5C, CHR 0x22]
      else if c = CHR 0x5C then [CHR 0x5C, CHR 0x5C]
      else if c = CHR 0x08 then [CHR 0x5C, CHR ''b'']
      else if c = CHR 0x0C then [CHR 0x5C, CHR ''f'']
      else if c = CHR 0x0A then [CHR 0x5C, CHR ''n'']
      else if c = CHR 0x0D then [CHR 0x5C, CHR ''r'']
      else if c = CHR 0x09 then [CHR 0x5C, CHR ''t'']
      else if of_char c < (32::nat) then
        [CHR 0x5C, CHR ''u'', CHR ''0'', CHR ''0'',
         hex_char (of_char c div 16), hex_char (of_char c mod 16)]
      else [c])"

definition quote :: "string \<Rightarrow> string" where
  "quote s = CHR 0x22 # concat (map escape_char s) @ [CHR 0x22]"

fun join :: "string list \<Rightarrow> string" where
  "join [] = []"
| "join [x] = x"
| "join (x # y # ys) = x @ CHR '','' # join (y # ys)"

fun unserializable :: "jsval \<Rightarrow> bool" where
  "unserializable JUndefined = True"
| "unserializable (JFun f) = True"
| "unserializable v = False"

fun stringify :: "jsval \<Rightarrow> string"
and stringify_elements :: "jsval list \<Rightarrow> string list"
and stringify_members :: "(string \<times> jsval) list \<Rightarrow> string list" where
  "stringify JUndefined = ''undefined''"
| "stringify JNull = ''null''"
| "stringify (JBool b) = (if b then ''true'' else ''false'')"
| "stringify (JNum n) = show_int n"
| "stringify (JDec s) = s"
| "stringify (JStr s) = quote s"
| "stringify (JArr xs) = CHR ''['' # join (stringify_elements xs) @ '']''"
| "stringify (JObj ps) = CHR ''{'' # join (stringify_members ps) @ ''}''"
| "stringify (JFun f) = ''undefined''"
| "stringify_elements [] = []"
| "stringify_elements (x # xs) =
     (if unserializable x then ''null'' else stringify x) # stringify_elements xs"
| "stringify_members [] = []"
| "stringify_members ((k, v) # ps) =
     (if unserializable v then stringify_members ps
      else (quote k @ CHR '':'' # stringify v) # stringify_members ps)"

definition JSON_stringify :: "jsval \<Rightarrow> string" where
  "JSON_stringify v = stringify v"

definition is_ws :: "char \<Rightarrow> bool" where
  "is_ws c = (c = CHR '' '' \<or> c = CHR 0x09 \<or> c = CHR 0x0A \<or> c = CHR 0x0D)"

definition skip_ws :: "string \<Rightarrow> string" where
  "skip_ws cs = dropWhile is_ws cs"

definition hex_val :: "char \<Rightarrow> nat option" where
  "hex_val c =
     (if is_digit c then Some (of_char c - 48)
      else if 97 \<le> (of_char c :: nat) \<and> (of_char c :: nat) \<le> 102 then Some (of_char c - 87)
      else if 65 \<le> (of_char c :: nat) \<and> (of_char c :: nat) \<le> 70 then Some (of_char c - 55)
      else None)"

text \<open>An escape of four hexadecimal digits denotes a code unit.\<close>

definition code_unit :: "nat \<Rightarrow> string" where
  "code_unit n =
     (if n < 128 then [char_of n]
      else if n < 2048 then [char_of (192 + n div 64), char_of (128 + n mod 64)]
      else [char_of (224 + n div 4096), char_of (128 + n div 64 mod 64), char_of (128 + n mod 64)])"

definition unescape :: "char \<Rightarrow> char option" where
  "unescape e =
     (if e = CHR 0x22 \<or> e = CHR 0x5C \<or> e = CHR ''/'' then Some e
      else if e = CHR ''b'' then Some (CHR 0x08)
      else if e = CHR ''f'' then Some (CHR 0x0C)
      else if e = CHR ''n'' then Some (CHR 0x0A)
      else if e = CHR ''r'' then Some (CHR 0x0D)
      else if e = CHR ''t'' then Some (CHR 0x09)
      else None)"

fun parse_string :: "string \<Rightarrow> string \<Rightarrow> (string \<times> string) option" where
  "parse_string [] acc = None"
| "parse_string (c # r) acc =
     (if c = CHR 0x22 then Some (rev acc, r)
      else if c = CHR 0x5C then
        (case r of
           [] \<Rightarrow> None
         | e # r' \<Rightarrow>
             if e = CHR ''u'' then
               (case r' of
                  h1 # h2 # h3 # h4 # r'' \<Rightarrow>
                    (case (hex_val h1, hex_val h2, hex_val h3, hex_val h4) of
                       (Some a, Some b, Some c', Some d) \<Rightarrow>
                         parse_string r''
                           (rev (code_unit (((a * 16 + b) * 16 + c') * 16 + d)) @ acc)
                     | _ \<Rightarrow> None)
                | _ \<Rightarrow> None)
             else
               (case unescape e of
                  None \<Rightarrow> None
                | Some d \<Rightarrow> parse_string r' (d # acc)))
      else if of_char c < (32::nat) then None
      else parse_string r (c # acc))"

definition parse_digits :: "string \<Rightarrow> string \<times> string" where
  "parse_digits cs = (takeWhile is_digit cs, dropWhile is_digit cs)"

definition parse_frac :: "string \<Rightarrow> (string \<times> string) option" where
  "parse_frac cs =
     (case cs of
        [] \<Rightarrow> Some ([], cs)
      | c # r \<Rightarrow>
          if c = CHR ''.'' then
            (case parse_digits r of (ds, r') \<Rightarrow> if ds = [] then None else Some (c # ds, r'))
          else Some ([], cs))"

definition parse_exp :: "string \<Rightarrow> (string \<times> string) option" where
  "parse_exp cs =
     (case cs of
        [] \<Rightarrow> Some ([], cs)
      | c # r \<Rightarrow>
          if c = CHR ''e'' \<or> c = CHR ''E'' then
            (let (sg, r1) =
                   (case r of
                      [] \<Rightarrow> ([], r)
                    | s # r0 \<Rightarrow> if s = CHR ''+'' \<or> s = CHR ''-'' then ([s], r0) else ([], r))
             in case parse_digits r1 of
                  (ds, r') \<Rightarrow> if ds = [] then None else Some (c # sg @ ds, r'))
          else Some ([], cs))"

definition parse_number :: "string \<Rightarrow> (jsval \<times> string) option" where
  "parse_number cs =
     (let (neg, r0) = (case cs of [] \<Rightarrow> (False, cs) | c # r \<Rightarrow> if c = CHR ''-'' then (True, r) else (False, cs));
          (ds, r1) = parse_digits r0
      in if ds = [] \<or> (hd ds = CHR ''0'' \<and> tl ds \<noteq> []) then None
         else
           (case parse_frac r1 of
              None \<Rightarrow> None
            | Some (fr, r2) \<Rightarrow>
                (case parse_exp r2 of
                   None \<Rightarrow> None
                 | Some (ex, r3) \<Rightarrow>
                     if fr = [] \<and> ex = [] then
                       Some (JNum (if neg then - int (digits_val ds) else int (digits_val ds)), r3)
                     else Some (JDec ((if neg then ''-'' else []) @ ds @ fr @ ex), r3))))"

definition parse_literal :: "string \<Rightarrow> (jsval \<times> string) option" where
  "parse_literal cs =
     (if take 4 cs = ''true'' then Some (JBool True, drop 4 cs)
      else if take 5 cs = ''false'' then Some (JBool False, drop 5 cs)
      else if take 4 cs = ''null'' then Some (JNull, drop 4 cs)
      else None)"

fun parse_value :: "nat \<Rightarrow> string \<Rightarrow> (jsval \<times> string) option"
and parse_elements :: "nat \<Rightarrow> jsval list \<Rightarrow> string \<Rightarrow> (jsval \<times> string) option"
and parse_members :: "nat \<Rightarrow> (string \<times> jsval) list \<Rightarrow> string \<Rightarrow> (jsval \<times> string) option" where
  "parse_value 0 cs = None"
| "parse_value (Suc n) cs =
     (case skip_ws cs of
        [] \<Rightarrow> None
      | c # r \<Rightarrow>
          if c = CHR ''{'' then
            (case skip_ws r of
               [] \<Rightarrow> None
             | d # r' \<Rightarrow> if d = CHR ''}'' then Some (JObj [], r') else parse_members n [] r)
          else if c = CHR ''['' then
            (case skip_ws r of
               [] \<Rightarrow> None
             | d # r' \<Rightarrow> if d = CHR '']'' then Some (JArr [], r') else parse_elements n [] r)
          else if c = CHR 0x22 then
            (case parse_string r [] of None \<Rightarrow> None | Some (s, r') \<Rightarrow> Some (JStr s, r'))
          else if c = CHR ''-'' \<or> is_digit c then parse_number (c # r)
          else parse_literal (c # r))"
| "parse_elements 0 acc cs = None"
| "parse_elements (Suc n) acc cs =
     (case parse_value n cs of
        None \<Rightarrow> None
      | Some (v, r) \<Rightarrow>
          (case skip_ws r of
             [] \<Rightarrow> None
           | c # r' \<Rightarrow>
               if c = CHR '','' then parse_elements n (acc @ [v]) r'
               else if c = CHR '']'' then Some (JArr (acc @ [v]), r')
               else None))"
| "parse_members 0 acc cs = None"
| "parse_members (Suc n) acc cs =
     (case skip_ws cs of
        [] \<Rightarrow> None
      | q # r \<Rightarrow>
          if q \<noteq> CHR 0x22 then None
          else
            (case parse_string r [] of
               None \<Rightarrow> None
             | Some (k, r1) \<Rightarrow>
                 (case skip_ws r1 of
                    [] \<Rightarrow> None
                  | c # r2 \<Rightarrow>
                      if c \<noteq> CHR '':'' then None
                      else
                        (case parse_value n r2 of
                           None \<Rightarrow> None
                         | Some (v, r3) \<Rightarrow>
                             (case skip_ws r3 of
                                [] \<Rightarrow> None
                              | d # r4 \<Rightarrow>
                                  if d = CHR '','' then parse_members n (AList.update k v acc) r4
                                  else if d = CHR ''}'' then Some (JObj (AList.update k v acc), r4)
                                  else None)))))"

definition JSON_parse :: "string \<Rightarrow> error + jsval" where
  "JSON_parse s =
     (case parse_value (Suc (length s)) s of
        None \<Rightarrow> Inl SyntaxError
      | Some (v, r) \<Rightarrow> if skip_ws r = [] then Inr v else Inl SyntaxError)"

section \<open>Configuration\<close>

text \<open>\<open>Config\<close> is the merged configuration, every option set; \<open>UpsertConfig\<close> is the
  argument of \<open>upsert\<close>, every option optional (\<open>None\<close> is an absent key).\<close>

record 'f Config =
  debounceTime :: nat
  persistState :: bool
  withInitialValue :: bool
  storage_key :: string
  arrControlFactory :: "'f option"

record 'f UpsertConfig =
  u_debounceTime :: "nat option"
  u_persistState :: "bool option"
  u_withInitialValue :: "bool option"
  u_storage_key :: "string option"
  u_arrControlFactory :: "'f option"

definition no_config :: "'f UpsertConfig" where
  "no_config =
     \<lparr>u_debounceTime = None, u_persistState = None, u_withInitialValue = None,
      u_storage_key = None, u_arrControlFactory = None\<rparr>"

text \<open>Modelled from the spec: \<open>NgFormsManagerConfig.merge\<close>, whose file \<open>config.ts\<close> is not
  among the sources. Section 6 of the spec: the configuration is per-call, merged over
  the process-wide defaults, a call-site value overriding the process-wide one.\<close>

definition merge_config :: "'f Config \<Rightarrow> 'f UpsertConfig \<Rightarrow> 'f Config" where
  "merge_config d c =
     \<lparr>debounceTime = (case u_debounceTime c of None \<Rightarrow> debounceTime d | Some t \<Rightarrow> t),
      persistState = (case u_persistState c of None \<Rightarrow> persistState d | Some b \<Rightarrow> b),
      withInitialValue = (case u_withInitialValue c of None \<Rightarrow> withInitialValue d | Some b \<Rightarrow> b),
      storage_key = (case u_storage_key c of None \<Rightarrow> storage_key d | Some k \<Rightarrow> k),
      arrControlFactory =
        (case u_arrControlFactory c of None \<Rightarrow> arrControlFactory d | Some f \<Rightarrow> Some f)\<rparr>"

section \<open>The manager and its environment\<close>

text \<open>The helpers of \<open>builders.ts\<close> and \<open>utils.ts\<close> that read or change a live control
  (\<open>toStore\<close>, \<open>handleFormArray\<close>, \<open>findControl\<close>, \<open>filterControlKeys\<close>) and the live control's
  own operations (the \<open>value\<close> and \<open>patchValue\<close> of Angular's \<open>AbstractControl\<close>, the latter
  with \<open>emitEvent: false\<close>) are parameters of the model: \<open>'c\<close> is the state of a live
  control, \<open>'f\<close> a control factory. An operation that changes the control returns its new
  state.\<close>

record ('c, 'f) deps =
  toStore :: "string \<Rightarrow> 'c \<Rightarrow> jsval"
  handleFormArray :: "jsval \<Rightarrow> 'c \<Rightarrow> 'f option \<Rightarrow> 'c"
  findControl :: "jsval \<Rightarrow> string \<Rightarrow> jsval"
  filterControlKeys :: "jsval \<Rightarrow> jsval"
  control_value :: "'c \<Rightarrow> jsval"
  patchValue :: "'c \<Rightarrow> jsval \<Rightarrow> 'c"

text \<open>A subscription made by \<open>upsert\<close>: the name and the control its callback closes
  over, the merged configuration, and whether it has been cancelled.\<close>

record 'f Subscription =
  sub_name :: string
  sub_control :: nat
  sub_config :: "'f Config"
  closed :: bool

text \<open>The fields of \<open>NgFormsManager\<close> (\<open>SS\<close> stands for the \<open>$$\<close> of the source; \<open>config\<close> is
  the injected process-wide configuration, which is taken to be provided), followed by
  what the manager shares with its environment: the subscriptions it has made, the
  live controls by reference, and \<open>localStorage\<close>, which is \<open>None\<close> where the global does
  not exist. \<open>destroySS\<close> holds the emissions of the subject, oldest first.\<close>

record ('c, 'f) world =
  config :: "'f Config"
  store :: "(string \<times> jsval) list"
  valueChangesSS :: "(string \<times> nat) list"
  instancesSS :: "(string \<times> nat) list"
  initialValuesSS :: "(string \<times> jsval) list"
  destroySS :: "string list"
  subscriptions :: "'f Subscription list"
  controls :: "nat \<Rightarrow> 'c"
  localStorage :: "(string \<times> string) list option"

datatype ('c, 'f) outcome =
    Returns "('c, 'f) world"
  | Throws error "('c, 'f) world"

fun state_of :: "('c, 'f) outcome \<Rightarrow> ('c, 'f) world" where
  "state_of (Returns s) = s"
| "state_of (Throws e s) = s"

fun and_then ::
  "('c, 'f) outcome \<Rightarrow> (('c, 'f) world \<Rightarrow> ('c, 'f) outcome) \<Rightarrow> ('c, 'f) outcome" where
  "and_then (Returns s) k = k s"
| "and_then (Throws e s) k = Throws e s"

datatype FormKeys = Key string | Keys "string list"

text \<open>The test \<open>if (name)\<close> of the source: \<open>undefined\<close> and the empty string are falsy,
  every array is truthy.\<close>

fun given :: "FormKeys option \<Rightarrow> bool" where
  "given None = False"
| "given (Some (Key n)) = (n \<noteq> [])"
| "given (Some (Keys ns)) = True"

text \<open>Modelled from the spec: \<open>coerceArray\<close> of \<open>utils.ts\<close>, which is not among the
  sources (array coercion: a single name becomes the one-element collection). An omitted
  name coerces to \<open>[undefined]\<close>, which names no entry of a map keyed by strings.\<close>

fun coerceArray :: "FormKeys option \<Rightarrow> string list" where
  "coerceArray None = []"
| "coerceArray (Some (Key n)) = [n]"
| "coerceArray (Some (Keys ns)) = ns"

text \<open>Modelled from the spec: \<open>isBrowser\<close> of \<open>utils.ts\<close>, which is not among the sources.
  Section 6 of the spec: durable storage is unavailable outside an interactive client.\<close>

definition isBrowser :: "('c, 'f) world \<Rightarrow> bool" where
  "isBrowser s = (case localStorage s of None \<Rightarrow> False | Some ls \<Rightarrow> True)"

text \<open>Modelled from the spec: \<open>deleteControl\<close> of \<open>builders.ts\<close>, which is not among the
  sources (the spec's \<open>removeEntries\<close>: a new top-level mapping with the given names' keys
  omitted).\<close>

definition deleteControl :: "(string \<times> jsval) list \<Rightarrow> string list \<Rightarrow> (string \<times> jsval) list" where
  "deleteControl snapshot names = filter (\<lambda>kv. fst kv \<notin> set names) snapshot"

text \<open>Modelled from the spec: \<open>mergeDeep\<close> of \<open>utils.ts\<close>, which is not among the sources
  (a deep merge of the source over the target: objects are merged key by key, and where
  the source holds anything else, the source's value wins).\<close>

fun mergeDeep :: "jsval \<Rightarrow> jsval \<Rightarrow> jsval"
and merge_props :: "(string \<times> jsval) list \<Rightarrow> (string \<times> jsval) list \<Rightarrow> (string \<times> jsval) list" where
  "mergeDeep (JObj t) (JObj s) = JObj (merge_props t s)"
| "mergeDeep t s = s"
| "merge_props t [] = t"
| "merge_props t ((k, v) # s) = merge_props (AList.update k (mergeDeep (own_prop t k) v) t) s"


section \<open>The store and the storage\<close>

text \<open>Modelled from the spec: \<open>FormsStore\<close> of \<open>forms-manager.store.ts\<close>, which is not among
  the sources (section 4.3: \<open>set\<close> replaces the mapping, \<open>update\<close> shallow-merges top-level
  keys into it, \<open>getValue\<close> returns it, and \<open>select\<close> is the stream of the projected
  values of the mappings the store has held).\<close>

definition FormsStore_set :: "(string \<times> jsval) list \<Rightarrow> ('c, 'f) world \<Rightarrow> ('c, 'f) world" where
  "FormsStore_set m s = s\<lparr>store := m\<rparr>"

definition FormsStore_update :: "string \<Rightarrow> jsval \<Rightarrow> ('c, 'f) world \<Rightarrow> ('c, 'f) world" where
  "FormsStore_update name v s = s\<lparr>store := AList.update name v (store s)\<rparr>"


text \<open>\<open>localStorage.setItem\<close>; naming the global where it does not exist raises
  \<open>ReferenceError\<close>. Where it exists, the write succeeds: a quota is not modelled.\<close>

definition localStorage_setItem ::
  "string \<Rightarrow> string \<Rightarrow> ('c, 'f) world \<Rightarrow> ('c, 'f) outcome" where
  "localStorage_setItem key str s =
     (case localStorage s of
        None \<Rightarrow> Throws ReferenceError s
      | Some ls \<Rightarrow> Returns (s\<lparr>localStorage := Some (AList.update key str ls)\<rparr>))"

text \<open>\<open>getFromStorage\<close>, \<open>removeFromStorage\<close>, \<open>updateStorage\<close> and \<open>updateStore\<close> of lines 375
  to 389 and 412 to 419.\<close>

definition getFromStorage :: "string \<Rightarrow> ('c, 'f) world \<Rightarrow> error + jsval" where
  "getFromStorage key s =
     (case localStorage s of
        None \<Rightarrow> Inl ReferenceError
      | Some ls \<Rightarrow>
          JSON_parse
            (case map_of ls key of
               None \<Rightarrow> ''{}''
             | Some str \<Rightarrow> if str = [] then ''{}'' else str))"

definition removeFromStorage :: "('c, 'f) world \<Rightarrow> ('c, 'f) outcome" where
  "removeFromStorage s =
     localStorage_setItem (storage_key (merge_config (config s) no_config))
       (JSON_stringify (JObj (store s))) s"

definition updateStorage ::
  "('c, 'f) deps \<Rightarrow> string \<Rightarrow> jsval \<Rightarrow> 'f Config \<Rightarrow> ('c, 'f) world \<Rightarrow> ('c, 'f) outcome" where
  "updateStorage h name v cfg s =
     (if isBrowser s \<and> persistState cfg then
        (case getFromStorage (storage_key cfg) s of
           Inl e \<Rightarrow> Throws e s
         | Inr storageValue \<Rightarrow>
             (case set_prop storageValue name (filterControlKeys h v) of
                Inl e \<Rightarrow> Throws e s
              | Inr storageValue' \<Rightarrow>
                  localStorage_setItem (storage_key cfg) (JSON_stringify storageValue') s))
      else Returns s)"

definition updateStore ::
  "('c, 'f) deps \<Rightarrow> string \<Rightarrow> 'c \<Rightarrow> ('c, 'f) world \<Rightarrow> jsval \<times> ('c, 'f) world" where
  "updateStore h name control s =
     (let v = toStore h name control in (v, FormsStore_update name v s))"

section \<open>Reading the store\<close>

text \<open>\<open>getControl\<close> and \<open>hasControl\<close> of lines 179 to 204; \<open>!path\<close> holds of an omitted and of
  an empty path. The store's value is a plain object (line 21), so that
  \<open>this.store.getValue()[name]\<close> is an own entry or, for a name such as \<open>constructor\<close>, what
  \<open>Object.prototype\<close> holds.\<close>

fun no_path :: "string option \<Rightarrow> bool" where
  "no_path None = True"
| "no_path (Some p) = (p = [])"

fun path_of :: "string option \<Rightarrow> string" where
  "path_of None = []"
| "path_of (Some p) = p"

definition getControl ::
  "('c, 'f) deps \<Rightarrow> string \<Rightarrow> string option \<Rightarrow> ('c, 'f) world \<Rightarrow> jsval" where
  "getControl h name path s =
     (if no_path path then obj_prop (store s) name
      else if truthy (obj_prop (store s) name) then
        findControl h (obj_prop (store s) name) (path_of path)
      else JNull)"

definition hasControl ::
  "('c, 'f) deps \<Rightarrow> string \<Rightarrow> string option \<Rightarrow> ('c, 'f) world \<Rightarrow> bool" where
  "hasControl h name path s = truthy (getControl h name path s)"

section \<open>Initial values\<close>

definition setInitialValue :: "string \<Rightarrow> jsval \<Rightarrow> ('c, 'f) world \<Rightarrow> ('c, 'f) world" where
  "setInitialValue name v s = s\<lparr>initialValuesSS := AList.update name v (initialValuesSS s)\<rparr>"

definition removeInitialValue :: "FormKeys option \<Rightarrow> ('c, 'f) world \<Rightarrow> ('c, 'f) world" where
  "removeInitialValue name s =
     s\<lparr>initialValuesSS := fold AList.delete (coerceArray name) (initialValuesSS s)\<rparr>"

section \<open>unsubscribe, clear, destroy\<close>

text \<open>Lines 270 to 318. \<open>unsubscribe_one\<close> is the body of the loop over the given names;
  without a name, the registry is walked with \<open>forEach\<close>, each entry's subscription is
  cancelled and the sentinel is sent once for it.\<close>

definition Subscription_unsubscribe :: "nat \<Rightarrow> ('c, 'f) world \<Rightarrow> ('c, 'f) world" where
  "Subscription_unsubscribe i s =
     s\<lparr>subscriptions := (subscriptions s)[i := (subscriptions s ! i)\<lparr>closed := True\<rparr>]\<rparr>"

definition destroy_next :: "string \<Rightarrow> ('c, 'f) world \<Rightarrow> ('c, 'f) world" where
  "destroy_next n s = s\<lparr>destroySS := destroySS s @ [n]\<rparr>"

definition unsubscribe_one :: "string \<Rightarrow> ('c, 'f) world \<Rightarrow> ('c, 'f) world" where
  "unsubscribe_one n s =
     (let s1 = (case map_of (valueChangesSS s) n of
                  None \<Rightarrow> s
                | Some i \<Rightarrow> Subscription_unsubscribe i s);
          s2 = s1\<lparr>valueChangesSS := AList.delete n (valueChangesSS s1)\<rparr>;
          s3 = s2\<lparr>instancesSS := AList.delete n (instancesSS s2)\<rparr>
      in destroy_next n s3)"

definition unsubscribe :: "FormKeys option \<Rightarrow> ('c, 'f) world \<Rightarrow> ('c, 'f) world" where
  "unsubscribe name s =
     (if given name then fold unsubscribe_one (coerceArray name) s
      else
        (let s1 = fold (\<lambda>entry w. destroy_next ''$$ALL'' (Subscription_unsubscribe (snd entry) w))
                    (valueChangesSS s) s
         in s1\<lparr>valueChangesSS := [], instancesSS := []\<rparr>))"

definition clear :: "FormKeys option \<Rightarrow> ('c, 'f) world \<Rightarrow> ('c, 'f) outcome" where
  "clear name s =
     and_then
       (removeFromStorage
          (if given name then FormsStore_set (deleteControl (store s) (coerceArray name)) s
           else FormsStore_set [] s))
       (\<lambda>s2. Returns (removeInitialValue name s2))"

definition destroy :: "FormKeys option \<Rightarrow> ('c, 'f) world \<Rightarrow> ('c, 'f) outcome" where
  "destroy name s = clear name (unsubscribe name s)"

section \<open>upsert\<close>

text \<open>Lines 333 to 373, in the order of the source: the capture of the initial value
  (\<open>upsert_initial\<close>), the re-hydration from storage (\<open>upsert_rehydrate\<close>), the patch of the
  control or the first write of the store (\<open>upsert_sync\<close>), and the subscription
  (\<open>upsert_subscribe\<close>). A subscription's handle is its index in \<open>subscriptions\<close>.\<close>

definition toControlValue ::
  "('c, 'f) deps \<Rightarrow> string \<Rightarrow> nat \<Rightarrow> 'f option \<Rightarrow> ('c, 'f) world \<Rightarrow> error + jsval \<times> ('c, 'f) world" where
  "toControlValue h name ref factory s =
     (let currentControl = getControl h name None s in
      case get_prop currentControl ''value'' of
        Inl e \<Rightarrow> Inl e
      | Inr v \<Rightarrow>
          (case get_prop currentControl ''controls'' of
             Inl e \<Rightarrow> Inl e
           | Inr cs \<Rightarrow>
               if \<not> truthy cs then Inr (v, s)
               else Inr (v, s\<lparr>controls := (controls s)(ref := handleFormArray h v (controls s ref) factory)\<rparr>)))"

definition upsert_initial ::
  "('c, 'f) deps \<Rightarrow> string \<Rightarrow> nat \<Rightarrow> 'f Config \<Rightarrow> ('c, 'f) world \<Rightarrow> ('c, 'f) world" where
  "upsert_initial h name ref mergedConfig s =
     (if withInitialValue mergedConfig \<and> map_of (initialValuesSS s) name = None
      then setInitialValue name (control_value h (controls s ref)) s
      else s)"

definition upsert_rehydrate ::
  "('c, 'f) deps \<Rightarrow> string \<Rightarrow> nat \<Rightarrow> 'f UpsertConfig \<Rightarrow> 'f Config \<Rightarrow> ('c, 'f) world
     \<Rightarrow> ('c, 'f) outcome" where
  "upsert_rehydrate h name ref cfg mergedConfig s =
     (if isBrowser s \<and> u_persistState cfg = Some True \<and> hasControl h name None s = False then
        (case getFromStorage (storage_key mergedConfig) s of
           Inl e \<Rightarrow> Throws e s
         | Inr storageValue \<Rightarrow>
             (case get_prop storageValue name of
                Inl e \<Rightarrow> Throws e s
              | Inr entry \<Rightarrow>
                  if truthy entry then
                    Returns (FormsStore_update name (mergeDeep (toStore h name (controls s ref)) entry) s)
                  else Returns s))
      else Returns s)"

definition upsert_sync ::
  "('c, 'f) deps \<Rightarrow> string \<Rightarrow> nat \<Rightarrow> 'f Config \<Rightarrow> ('c, 'f) world \<Rightarrow> ('c, 'f) outcome" where
  "upsert_sync h name ref mergedConfig s =
     (if hasControl h name None s = True then
        (case toControlValue h name ref (arrControlFactory mergedConfig) s of
           Inl e \<Rightarrow> Throws e s
         | Inr (v, s1) \<Rightarrow>
             Returns (s1\<lparr>controls := (controls s1)(ref := patchValue h (controls s1 ref) v)\<rparr>))
      else
        (case updateStore h name (controls s ref) s of
           (v, s1) \<Rightarrow> updateStorage h name v mergedConfig s1))"

definition upsert_subscribe ::
  "string \<Rightarrow> nat \<Rightarrow> 'f Config \<Rightarrow> ('c, 'f) world \<Rightarrow> ('c, 'f) world" where
  "upsert_subscribe name ref mergedConfig s =
     (let unsubscribe_handle = length (subscriptions s);
          s1 = s\<lparr>subscriptions := subscriptions s @
                  [\<lparr>sub_name = name, sub_control = ref, sub_config = mergedConfig, closed = False\<rparr>]\<rparr>;
          s2 = s1\<lparr>valueChangesSS := AList.update name unsubscribe_handle (valueChangesSS s1)\<rparr>
      in s2\<lparr>instancesSS := AList.update name ref (instancesSS s2)\<rparr>)"

definition upsert ::
  "('c, 'f) deps \<Rightarrow> string \<Rightarrow> nat \<Rightarrow> 'f UpsertConfig \<Rightarrow> ('c, 'f) world \<Rightarrow> ('c, 'f) outcome" where
  "upsert h name ref cfg s =
     (let mergedConfig = merge_config (config s) cfg in
      and_then (upsert_rehydrate h name ref cfg mergedConfig (upsert_initial h name ref mergedConfig s))
        (\<lambda>s2. and_then (upsert_sync h name ref mergedConfig s2)
           (\<lambda>s3. Returns (upsert_subscribe name ref mergedConfig s3))))"

section \<open>Events of the environment\<close>

text \<open>The callback that \<open>upsert\<close> subscribes (lines 364 to 367) runs when the debounced
  stream of the control's value and status changes emits, as long as the subscription is
  not cancelled: \<open>Deliver i\<close> is such an emission reaching subscription \<open>i\<close>, and \<open>Change\<close> is
  the application changing a live control. An error raised in a callback is reported to
  the host; the events that follow still occur.\<close>

definition callback :: "('c, 'f) deps \<Rightarrow> 'f Subscription \<Rightarrow> ('c, 'f) world \<Rightarrow> ('c, 'f) outcome" where
  "callback h sub s =
     (case updateStore h (sub_name sub) (controls s (sub_control sub)) s of
        (v, s1) \<Rightarrow> updateStorage h (sub_name sub) v (sub_config sub) s1)"

definition deliver :: "('c, 'f) deps \<Rightarrow> nat \<Rightarrow> ('c, 'f) world \<Rightarrow> ('c, 'f) outcome" where
  "deliver h i s =
     (if i < length (subscriptions s) \<and> \<not> closed (subscriptions s ! i)
      then callback h (subscriptions s ! i) s
      else Returns s)"

datatype 'c event = Deliver nat | Change nat 'c

fun occur :: "('c, 'f) deps \<Rightarrow> 'c event \<Rightarrow> ('c, 'f) world \<Rightarrow> ('c, 'f) world" where
  "occur h (Deliver i) s = state_of (deliver h i s)"
| "occur h (Change ref c) s = s\<lparr>controls := (controls s)(ref := c)\<rparr>"

definition occur_all :: "('c, 'f) deps \<Rightarrow> 'c event list \<Rightarrow> ('c, 'f) world \<Rightarrow> ('c, 'f) world" where
  "occur_all h evs s = fold (occur h) evs s"

definition live_subscriptions :: "string \<Rightarrow> ('c, 'f) world \<Rightarrow> nat list" where
  "live_subscriptions name s =
     filter (\<lambda>i. sub_name (subscriptions s ! i) = name \<and> \<not> closed (subscriptions s ! i))
       [0..<length (subscriptions s)]"

section \<open>Derived streams\<close>

text \<open>A stream is the list of its emissions, oldest first. The operators of the stream
  library are the spec's given capability; these are their meanings on emissions.\<close>












definition controlDestroyed :: "string \<Rightarrow> ('c, 'f) world \<Rightarrow> string list" where
  "controlDestroyed name s =
     filter (\<lambda>controlName. name = controlName \<or> controlName = ''$$ALL'') (destroySS s)"

section \<open>A leaf control\<close>

text \<open>An instance of the parameters, for the statements at concrete inputs. Modelled
  from the spec: a live control without children (section 6: it exposes value, valid,
  dirty, disabled and errors).\<close>

record FormControl =
  fc_value :: jsval
  fc_valid :: bool
  fc_dirty :: bool
  fc_disabled :: bool
  fc_errors :: jsval

text \<open>Modelled from the spec: \<open>toStore\<close> of \<open>builders.ts\<close>, which is not among the sources,
  on a control without children (section 4.2: it reads value, valid, dirty, disabled
  and errors off the live control and returns a Leaf).\<close>

definition leaf_toStore :: "string \<Rightarrow> FormControl \<Rightarrow> jsval" where
  "leaf_toStore name c =
     JObj [(''value'', fc_value c), (''valid'', JBool (fc_valid c)), (''dirty'', JBool (fc_dirty c)),
           (''disabled'', JBool (fc_disabled c)), (''errors'', fc_errors c)]"

text \<open>Modelled from the spec: the other helpers on a control without children.
  \<open>handleFormArray\<close> has no array to reconcile (section 4.2), \<open>findControl\<close> resolves every
  path to null in a Leaf (section 4.1), \<open>filterControlKeys\<close> keeps only the value of a
  snapshot (section 6, the persisted layout), and the partial update of a control
  without children applies the value directly (section 4.2), leaving its flags as they
  are.\<close>

definition leaf_deps :: "(FormControl, unit) deps" where
  "leaf_deps =
     \<lparr>toStore = leaf_toStore,
      handleFormArray = (\<lambda>v c f. c),
      findControl = (\<lambda>c p. JNull),
      filterControlKeys = (\<lambda>v. case v of JObj ps \<Rightarrow> JObj (filter (\<lambda>kv. fst kv = ''value'') ps) | _ \<Rightarrow> v),
      control_value = fc_value,
      patchValue = (\<lambda>c v. c\<lparr>fc_value := v\<rparr>)\<rparr>"

definition text_control :: "string \<Rightarrow> bool \<Rightarrow> FormControl" where
  "text_control v d =
     \<lparr>fc_value = JStr v, fc_valid = True, fc_dirty = d, fc_disabled = False, fc_errors = JNull\<rparr>"

definition defaults :: "unit Config" where
  "defaults =
     \<lparr>debounceTime = 0, persistState = False, withInitialValue = False,
      storage_key = ''ngFormsManager'', arrControlFactory = None\<rparr>"

text \<open>A new manager (the constructor sets the store to the empty object), in a world
  with the given live controls and storage.\<close>

definition new_manager ::
  "'f Config \<Rightarrow> (nat \<Rightarrow> 'c) \<Rightarrow> (string \<times> string) list option \<Rightarrow> ('c, 'f) world" where
  "new_manager cfg cs ls =
     \<lparr>config = cfg, store = [], valueChangesSS = [], instancesSS = [], initialValuesSS = [],
      destroySS = [], subscriptions = [], controls = cs, localStorage = ls\<rparr>"

definition no_controls :: "nat \<Rightarrow> FormControl" where
  "no_controls ref = text_control [] False"

definition two_controls :: "nat \<Rightarrow> FormControl" where
  "two_controls ref = (if ref = 0 then text_control ''a'' True else text_control ''b'' False)"

fun returned :: "('c, 'f) outcome \<Rightarrow> bool" where
  "returned (Returns s) = True"
| "returned (Throws e s) = False"

section \<open>Predicates of the statements\<close>

text \<open>A store state that holds under a name a value that is neither null nor
  undefined: the states that \<open>filterNil\<close> lets through.\<close>

definition present :: "string \<Rightarrow> (string \<times> jsval) list \<Rightarrow> bool" where
  "present name st = (obj_prop st name \<noteq> JNull \<and> obj_prop st name \<noteq> JUndefined)"

text \<open>Every subscription that is not cancelled is the one that the registry holds for
  its name.\<close>

definition recorded :: "('c, 'f) world \<Rightarrow> bool" where
  "recorded s =
     list_all
       (\<lambda>i. closed (subscriptions s ! i)
            \<or> map_of (valueChangesSS s) (sub_name (subscriptions s ! i)) = Some i)
       [0..<length (subscriptions s)]"


section \<open>Example worlds\<close>

text \<open>A manager without storage; the same after \<open>upsert('login', c0)\<close>, and after
  \<open>upsert('login', c1)\<close> on top of it.\<close>

definition example_world :: "(FormControl, unit) world" where
  "example_world = new_manager defaults two_controls None"



text \<open>A manager with empty storage after \<open>upsert('a', c0)\<close> and \<open>upsert('b', c1)\<close>.\<close>

definition registered_ab :: "(FormControl, unit) world" where
  "registered_ab =
     state_of (upsert leaf_deps ''b'' 1 no_config
       (state_of (upsert leaf_deps ''a'' 0 no_config
          (new_manager defaults two_controls (Some [])))))"

text \<open>Storage that holds a saved value for \<open>login\<close>, a new manager over it, and one whose
  process-wide configuration sets \<open>persistState\<close>.\<close>

definition saved_login :: "(string \<times> string) list" where
  "saved_login = [(''ngFormsManager'', ''{\"login\":{\"value\":\"saved\"}}'')]"

definition saved_world :: "(FormControl, unit) world" where
  "saved_world = new_manager defaults two_controls (Some saved_login)"

definition persisting_world :: "(FormControl, unit) world" where
  "persisting_world =
     new_manager (defaults\<lparr>persistState := True\<rparr>) two_controls (Some saved_login)"

definition persisting :: "unit UpsertConfig" where
  "persisting = no_config\<lparr>u_persistState := Some True\<rparr>"



text \<open>Storage whose blob holds \<open>null\<close> for \<open>login\<close>, and storage whose blob is not
  well-formed under a process-wide configuration that sets \<open>persistState\<close>.\<close>

definition null_entry_world :: "(FormControl, unit) world" where
  "null_entry_world =
     new_manager defaults two_controls (Some [(''ngFormsManager'', ''{\"login\":null}'')])"

definition corrupt_world :: "(FormControl, unit) world" where
  "corrupt_world =
     new_manager (defaults\<lparr>persistState := True\<rparr>) two_controls (Some [(''ngFormsManager'', ''{'')])"

text \<open>A manager with empty storage after \<open>upsert('a', c0)\<close> and \<open>upsert('', c1)\<close>.\<close>

definition registered_a_empty :: "(FormControl, unit) world" where
  "registered_a_empty =
     state_of (upsert leaf_deps [] 1 no_config
       (state_of (upsert leaf_deps ''a'' 0 no_config
          (new_manager defaults two_controls (Some [])))))"




definition typing :: "FormControl event list" where
  "typing = [Change 0 (text_control ''z'' True), Deliver 0]"

section \<open>Facts about the parts of the model\<close>

lemma own_prop_update [simp]: "own_prop (AList.update k v ps) k' = (if k' = k then v else own_prop ps k')"
  by (simp add: own_prop_def update_conv')

lemma obj_prop_update [simp]: "obj_prop (AList.update k v ps) k' = (if k' = k then v else obj_prop ps k')"
  by (simp add: obj_prop_def update_conv')

lemma obj_prop_own: "map_of ps k = Some v \<Longrightarrow> obj_prop ps k = v"
  by (simp add: obj_prop_def)



lemma truthy_mergeDeep: "truthy e \<Longrightarrow> truthy (mergeDeep t e)"
  by (cases t; cases e) simp_all

lemma get_prop_truthy: "truthy v \<Longrightarrow> \<exists>w. get_prop v k = Inr w"
  by (cases v) simp_all


lemma and_then_Returns:
  "and_then x k = Returns s' \<Longrightarrow> \<exists>s1. x = Returns s1 \<and> k s1 = Returns s'"
  by (cases x) simp_all

lemma FormsStore_update_fields [simp]:
  "store (FormsStore_update n v s) = AList.update n v (store s)"
  "localStorage (FormsStore_update n v s) = localStorage s"
  "controls (FormsStore_update n v s) = controls s"
  "subscriptions (FormsStore_update n v s) = subscriptions s"
  "valueChangesSS (FormsStore_update n v s) = valueChangesSS s"
  "instancesSS (FormsStore_update n v s) = instancesSS s"
  "initialValuesSS (FormsStore_update n v s) = initialValuesSS s"
  "destroySS (FormsStore_update n v s) = destroySS s"
  "config (FormsStore_update n v s) = config s"
  by (simp_all add: FormsStore_update_def)

lemma upsert_initial_fields [simp]:
  "store (upsert_initial h n r mc s) = store s"
  "localStorage (upsert_initial h n r mc s) = localStorage s"
  "controls (upsert_initial h n r mc s) = controls s"
  "subscriptions (upsert_initial h n r mc s) = subscriptions s"
  "valueChangesSS (upsert_initial h n r mc s) = valueChangesSS s"
  "instancesSS (upsert_initial h n r mc s) = instancesSS s"
  "destroySS (upsert_initial h n r mc s) = destroySS s"
  "config (upsert_initial h n r mc s) = config s"
  by (simp_all add: upsert_initial_def setInitialValue_def)

lemma getFromStorage_pass [simp]:
  "getFromStorage key (FormsStore_update n v s) = getFromStorage key s"
  "getFromStorage key (upsert_initial h n r mc s) = getFromStorage key s"
  by (simp_all add: getFromStorage_def)

lemma isBrowser_pass [simp]:
  "isBrowser (FormsStore_update n v s) = isBrowser s"
  "isBrowser (upsert_initial h n r mc s) = isBrowser s"
  by (simp_all add: isBrowser_def)

lemma hasControl_upsert_initial [simp]:
  "hasControl h name p (upsert_initial h' n r mc s) = hasControl h name p s"
  by (simp add: hasControl_def getControl_def)

lemma upsert_subscribe_fields [simp]:
  "store (upsert_subscribe n r mc s) = store s"
  "controls (upsert_subscribe n r mc s) = controls s"
  "localStorage (upsert_subscribe n r mc s) = localStorage s"
  "initialValuesSS (upsert_subscribe n r mc s) = initialValuesSS s"
  "destroySS (upsert_subscribe n r mc s) = destroySS s"
  "config (upsert_subscribe n r mc s) = config s"
  "subscriptions (upsert_subscribe n r mc s) = subscriptions s @
     [\<lparr>sub_name = n, sub_control = r, sub_config = mc, closed = False\<rparr>]"
  "valueChangesSS (upsert_subscribe n r mc s) = AList.update n (length (subscriptions s)) (valueChangesSS s)"
  "instancesSS (upsert_subscribe n r mc s) = AList.update n r (instancesSS s)"
  by (simp_all add: upsert_subscribe_def Let_def)

lemma updateStorage_Returns:
  "updateStorage h n v c s = Returns s3 \<Longrightarrow>
     store s3 = store s \<and> controls s3 = controls s \<and> subscriptions s3 = subscriptions s
     \<and> valueChangesSS s3 = valueChangesSS s \<and> instancesSS s3 = instancesSS s
     \<and> initialValuesSS s3 = initialValuesSS s \<and> destroySS s3 = destroySS s"
  by (auto simp: updateStorage_def localStorage_setItem_def split: if_splits sum.splits option.splits)

lemma updateStorage_no_storage [simp]:
  "localStorage s = None \<Longrightarrow> updateStorage h n v c s = Returns s"
  by (simp add: updateStorage_def isBrowser_def)

lemma updateStorage_state:
  "store (state_of (updateStorage h n v c s)) = store s
   \<and> subscriptions (state_of (updateStorage h n v c s)) = subscriptions s
   \<and> valueChangesSS (state_of (updateStorage h n v c s)) = valueChangesSS s"
  by (simp add: updateStorage_def localStorage_setItem_def split: sum.splits option.splits)

lemma upsert_registered:
  assumes reg: "hasControl h name None s = True"
  shows "\<exists>v c. get_prop (getControl h name None s) ''value'' = Inr v
           \<and> (c = controls s ref \<or> c = handleFormArray h v (controls s ref) (arrControlFactory mc))
           \<and> upsert_sync h name ref mc s =
               Returns (s\<lparr>controls := (controls s)(ref := patchValue h c v)\<rparr>)"
proof -
  from reg have t: "truthy (getControl h name None s)" by (simp add: hasControl_def)
  from get_prop_truthy [OF t] obtain v where v: "get_prop (getControl h name None s) ''value'' = Inr v"
    by blast
  from get_prop_truthy [OF t] obtain cs where cs: "get_prop (getControl h name None s) ''controls'' = Inr cs"
    by blast
  show ?thesis
    using reg v cs by (cases "truthy cs") (auto simp: upsert_sync_def toControlValue_def Let_def)
qed

lemma upsert_no_storage:
  assumes "localStorage s = None"
  shows "\<exists>s'. upsert h name ref cfg s = Returns s'
           \<and> subscriptions s' = subscriptions s @
                [\<lparr>sub_name = name, sub_control = ref,
                  sub_config = merge_config (config s) cfg, closed = False\<rparr>]
           \<and> valueChangesSS s' = AList.update name (length (subscriptions s)) (valueChangesSS s)
           \<and> localStorage s' = None \<and> config s' = config s
           \<and> (\<forall>r. r \<noteq> ref \<longrightarrow> controls s' r = controls s r)"
proof -
  let ?mc = "merge_config (config s) cfg"
  let ?s1 = "upsert_initial h name ref ?mc s"
  have skip: "upsert_rehydrate h name ref cfg ?mc ?s1 = Returns ?s1"
    using assms by (simp add: upsert_rehydrate_def isBrowser_def)
  show ?thesis
  proof (cases "hasControl h name None ?s1")
    case True
    then have "hasControl h name None ?s1 = True" by simp
    from upsert_registered [OF this, of ref ?mc]
    obtain v c where "upsert_sync h name ref ?mc ?s1 =
          Returns (?s1\<lparr>controls := (controls ?s1)(ref := patchValue h c v)\<rparr>)"
      by blast
    then show ?thesis
      using assms by (simp add: upsert_def Let_def skip)
  next
    case False
    then show ?thesis
      using assms by (simp add: upsert_def Let_def skip upsert_sync_def updateStore_def)
  qed
qed

lemma upsert_rehydrate_Returns:
  "upsert_rehydrate h name ref cfg mc s = Returns s2 \<Longrightarrow>
     subscriptions s2 = subscriptions s \<and> valueChangesSS s2 = valueChangesSS s"
  by (auto simp: upsert_rehydrate_def split: if_splits sum.splits)

lemma upsert_sync_Returns:
  "upsert_sync h name ref mc s = Returns s3 \<Longrightarrow>
     subscriptions s3 = subscriptions s \<and> valueChangesSS s3 = valueChangesSS s"
  by (auto simp: upsert_sync_def toControlValue_def updateStore_def Let_def
      dest!: updateStorage_Returns split: if_splits sum.splits prod.splits)

lemma upsert_registry:
  assumes "upsert h name ref cfg s = Returns s'"
  shows "subscriptions s' = subscriptions s @
           [\<lparr>sub_name = name, sub_control = ref,
             sub_config = merge_config (config s) cfg, closed = False\<rparr>]
         \<and> valueChangesSS s' = AList.update name (length (subscriptions s)) (valueChangesSS s)"
proof -
  let ?mc = "merge_config (config s) cfg"
  from assms obtain s2 where
    r: "upsert_rehydrate h name ref cfg ?mc (upsert_initial h name ref ?mc s) = Returns s2"
    and rest: "and_then (upsert_sync h name ref ?mc s2)
        (\<lambda>s3. Returns (upsert_subscribe name ref ?mc s3)) = Returns s'"
    by (auto simp: upsert_def Let_def dest: and_then_Returns)
  from rest obtain s3 where y: "upsert_sync h name ref ?mc s2 = Returns s3"
    and s': "s' = upsert_subscribe name ref ?mc s3"
    by (auto dest: and_then_Returns)
  from upsert_rehydrate_Returns [OF r] upsert_sync_Returns [OF y] s'
  show ?thesis by simp
qed

section \<open>The bound of the parser\<close>

text \<open>Every parse consumes input, and a parse found with some bound is found with every
  bound that is at least the number of characters it consumes: \<open>JSON_parse\<close> misses no
  parse for want of a larger bound.\<close>

lemma length_skip_ws: "length (skip_ws cs) \<le> length cs"
  by (simp add: skip_ws_def length_dropWhile_le)

lemma skip_ws_Cons: "skip_ws cs = c # r \<Longrightarrow> length r < length cs"
  using length_skip_ws [of cs] by simp

lemma parse_string_consumes: "parse_string cs acc = Some (s, r) \<Longrightarrow> length r < length cs"
proof (induction cs acc arbitrary: s r rule: parse_string.induct)
  case (1 acc)
  then show ?case by simp
next
  case (2 c r0 acc)
  show ?case
    using "2.prems" "2.IH"
    by (auto split: if_splits list.splits option.splits prod.splits) fastforce+
qed

lemma parse_digits_length: "parse_digits cs = (ds, r) \<Longrightarrow> length ds + length r = length cs"
  by (auto simp: parse_digits_def) (metis length_append takeWhile_dropWhile_id)

lemma parse_frac_consumes: "parse_frac cs = Some (fr, r) \<Longrightarrow> length r \<le> length cs"
  by (auto simp: parse_frac_def split: list.splits if_splits prod.splits dest!: parse_digits_length)

lemma parse_exp_consumes: "parse_exp cs = Some (ex, r) \<Longrightarrow> length r \<le> length cs"
  by (auto simp: parse_exp_def Let_def split: list.splits if_splits prod.splits dest!: parse_digits_length)

lemma parse_number_consumes:
  assumes "parse_number cs = Some (v, r)"
  shows "length r < length cs"
proof -
  obtain neg r0 where sign: "(case cs of [] \<Rightarrow> (False, cs)
      | c # r \<Rightarrow> if c = CHR ''-'' then (True, r) else (False, cs)) = (neg, r0)"
    by (cases "case cs of [] \<Rightarrow> (False, cs)
      | c # r \<Rightarrow> if c = CHR ''-'' then (True, r) else (False, cs)")
  then have r0: "length r0 \<le> length cs"
    by (auto split: list.splits if_splits)
  obtain ds r1 where dig: "parse_digits r0 = (ds, r1)"
    by (cases "parse_digits r0")
  from assms sign dig have ne: "ds \<noteq> []"
    by (auto simp: parse_number_def Let_def split: if_splits)
  from assms sign dig ne obtain fr r2 ex where fr: "parse_frac r1 = Some (fr, r2)"
    and ex: "parse_exp r2 = Some (ex, r)"
    by (auto simp: parse_number_def Let_def split: if_splits option.splits)
  from ne parse_digits_length [OF dig] have "length r1 < length r0"
    by (cases ds) auto
  with parse_frac_consumes [OF fr] parse_exp_consumes [OF ex] r0 show ?thesis by simp
qed

lemma take_eq_length: "take n cs = xs \<Longrightarrow> length xs \<le> length cs"
  by auto

lemma parse_literal_consumes: "parse_literal cs = Some (v, r) \<Longrightarrow> length r < length cs"
  by (auto simp: parse_literal_def split: if_splits dest!: take_eq_length)

lemma parse_consumes:
  "(\<forall>cs v r. parse_value n cs = Some (v, r) \<longrightarrow> length r < length cs)
   \<and> (\<forall>acc cs v r. parse_elements n acc cs = Some (v, r) \<longrightarrow> length r < length cs)
   \<and> (\<forall>acc cs v r. parse_members n acc cs = Some (v, r) \<longrightarrow> length r < length cs)"
proof (induction n)
  case 0
  then show ?case by simp
next
  case (Suc n)
  have val: "length r < length cs" if "parse_value (Suc n) cs = Some (v, r)" for cs v r
  proof -
    from that obtain c r0 where ws: "skip_ws cs = c # r0"
      by (auto split: list.splits)
    note r0 = skip_ws_Cons [OF ws]
    from that ws have "length r < length (c # r0)"
      using Suc.IH
      by (auto split: if_splits list.splits option.splits
          dest!: parse_string_consumes parse_number_consumes parse_literal_consumes skip_ws_Cons)
        (fastforce dest: skip_ws_Cons)+
    with length_skip_ws [of cs] ws show ?thesis by simp
  qed
  have elems: "length r < length cs" if "parse_elements (Suc n) acc cs = Some (v, r)" for acc cs v r
    using that Suc.IH
    by (auto split: if_splits list.splits option.splits dest!: skip_ws_Cons) fastforce+
  have membs: "length r < length cs" if "parse_members (Suc n) acc cs = Some (v, r)" for acc cs v r
    using that Suc.IH
    by (auto split: if_splits list.splits option.splits dest!: skip_ws_Cons parse_string_consumes)
      fastforce+
  from val elems membs show ?case by blast
qed

lemma parse_fuel:
  "(\<forall>cs v r n. parse_value m cs = Some (v, r) \<longrightarrow> length cs - length r \<le> n
        \<longrightarrow> parse_value n cs = Some (v, r))
   \<and> (\<forall>acc cs v r n. parse_elements m acc cs = Some (v, r) \<longrightarrow> length cs - length r \<le> n
        \<longrightarrow> parse_elements n acc cs = Some (v, r))
   \<and> (\<forall>acc cs v r n. parse_members m acc cs = Some (v, r) \<longrightarrow> length cs - length r \<le> n
        \<longrightarrow> parse_members n acc cs = Some (v, r))"
proof (induction m)
  case 0
  then show ?case by simp
next
  case (Suc m)
  note IHv = Suc.IH [THEN conjunct1, rule_format]
  note IHe = Suc.IH [THEN conjunct2, THEN conjunct1, rule_format]
  note IHm = Suc.IH [THEN conjunct2, THEN conjunct2, rule_format]
  note cv = parse_consumes [THEN conjunct1, rule_format]
  note ce = parse_consumes [THEN conjunct2, THEN conjunct1, rule_format]
  note cm = parse_consumes [THEN conjunct2, THEN conjunct2, rule_format]
  have val: "parse_value n cs = Some (v, r)"
    if p: "parse_value (Suc m) cs = Some (v, r)" and n: "length cs - length r \<le> n" for cs v r n
  proof -
    from cv [OF p] n obtain n' where n': "n = Suc n'" and le: "length cs - length r \<le> Suc n'"
      by (cases n) auto
    from p obtain c r0 where ws: "skip_ws cs = c # r0"
      by (auto split: list.splits)
    note r0 = skip_ws_Cons [OF ws]
    show ?thesis
    proof (cases "c = CHR ''{''")
      case True
      from p ws True obtain d r' where ws2: "skip_ws r0 = d # r'"
        by (auto split: list.splits)
      show ?thesis
      proof (cases "d = CHR ''}''")
        case True
        with p ws ws2 \<open>c = CHR ''{''\<close> show ?thesis by (simp add: n')
      next
        case False
        with p ws ws2 \<open>c = CHR ''{''\<close> have pm: "parse_members m [] r0 = Some (v, r)" by simp
        from cm [OF pm] r0 le have "length r0 - length r \<le> n'" by simp
        from IHm [OF pm this] ws ws2 False \<open>c = CHR ''{''\<close> show ?thesis by (simp add: n')
      qed
    next
      case notobj: False
      show ?thesis
      proof (cases "c = CHR ''[''")
        case True
        from p ws True notobj obtain d r' where ws2: "skip_ws r0 = d # r'"
          by (auto split: list.splits)
        show ?thesis
        proof (cases "d = CHR '']''")
          case True
          with p ws ws2 \<open>c = CHR ''[''\<close> notobj show ?thesis by (simp add: n')
        next
          case False
          with p ws ws2 \<open>c = CHR ''[''\<close> notobj have pe: "parse_elements m [] r0 = Some (v, r)" by simp
          from ce [OF pe] r0 le have "length r0 - length r \<le> n'" by simp
          from IHe [OF pe this] ws ws2 False \<open>c = CHR ''[''\<close> notobj show ?thesis by (simp add: n')
        qed
      next
        case False
        with p ws notobj show ?thesis by (simp add: n')
      qed
    qed
  qed
  have elems: "parse_elements n acc cs = Some (res, r)"
    if p: "parse_elements (Suc m) acc cs = Some (res, r)" and n: "length cs - length r \<le> n"
    for acc cs res r n
  proof -
    from ce [OF p] n obtain n' where n': "n = Suc n'" and le: "length cs - length r \<le> Suc n'"
      by (cases n) auto
    from p obtain v r1 where pv: "parse_value m cs = Some (v, r1)"
      by (auto split: option.splits)
    from p pv obtain c r' where ws: "skip_ws r1 = c # r'"
      by (auto split: list.splits)
    note r1 = cv [OF pv]
    note r' = skip_ws_Cons [OF ws]
    have rr: "length r \<le> length r'"
    proof (cases "c = CHR '',''")
      case True
      with p pv ws have "parse_elements m (acc @ [v]) r' = Some (res, r)" by simp
      from ce [OF this] show ?thesis by simp
    next
      case False
      with p pv ws show ?thesis by (auto split: if_splits)
    qed
    from rr r' r1 le have "length cs - length r1 \<le> n'" by simp
    from IHv [OF pv this] have pv': "parse_value n' cs = Some (v, r1)" .
    show ?thesis
    proof (cases "c = CHR '',''")
      case True
      with p pv ws have pe: "parse_elements m (acc @ [v]) r' = Some (res, r)" by simp
      from ce [OF pe] r' r1 le have "length r' - length r \<le> n'" by simp
      from IHe [OF pe this] pv' ws True show ?thesis by (simp add: n')
    next
      case False
      with p pv ws pv' show ?thesis by (auto simp: n' split: if_splits)
    qed
  qed
  have membs: "parse_members n acc cs = Some (res, r)"
    if p: "parse_members (Suc m) acc cs = Some (res, r)" and n: "length cs - length r \<le> n"
    for acc cs res r n
  proof -
    from cm [OF p] n obtain n' where n': "n = Suc n'" and le: "length cs - length r \<le> Suc n'"
      by (cases n) auto
    from p obtain q r0 where ws0: "skip_ws cs = q # r0" and q: "q = CHR 0x22"
      by (auto split: list.splits if_splits)
    from p ws0 q obtain k r1 where ps: "parse_string r0 [] = Some (k, r1)"
      by (auto split: option.splits)
    from p ws0 q ps obtain c r2 where ws1: "skip_ws r1 = c # r2" and c: "c = CHR '':''"
      by (auto split: list.splits if_splits)
    from p ws0 q ps ws1 c obtain v r3 where pv: "parse_value m r2 = Some (v, r3)"
      by (auto split: option.splits)
    from p ws0 q ps ws1 c pv obtain d r4 where ws3: "skip_ws r3 = d # r4"
      by (auto split: list.splits)
    note l0 = skip_ws_Cons [OF ws0]
    note l1 = parse_string_consumes [OF ps]
    note l2 = skip_ws_Cons [OF ws1]
    note l3 = cv [OF pv]
    note l4 = skip_ws_Cons [OF ws3]
    have rr: "length r \<le> length r4"
    proof (cases "d = CHR '',''")
      case True
      with p ws0 q ps ws1 c pv ws3 have "parse_members m (AList.update k v acc) r4 = Some (res, r)"
        by simp
      from cm [OF this] show ?thesis by simp
    next
      case False
      with p ws0 q ps ws1 c pv ws3 show ?thesis by (auto split: if_splits)
    qed
    from rr l0 l1 l2 l3 l4 le have "length r2 - length r3 \<le> n'" by simp
    from IHv [OF pv this] have pv': "parse_value n' r2 = Some (v, r3)" .
    show ?thesis
    proof (cases "d = CHR '',''")
      case True
      with p ws0 q ps ws1 c pv ws3 have pm: "parse_members m (AList.update k v acc) r4 = Some (res, r)"
        by simp
      from cm [OF pm] l0 l1 l2 l3 l4 le have "length r4 - length r \<le> n'" by simp
      from IHm [OF pm this] ws0 q ps ws1 c pv' ws3 True show ?thesis by (simp add: n')
    next
      case False
      with p ws0 q ps ws1 c pv pv' ws3 show ?thesis by (auto simp: n' split: if_splits)
    qed
  qed
  from val elems membs show ?case by blast
qed

lemma JSON_parse_fuel:
  "parse_value m s = Some (v, r) \<Longrightarrow> parse_value (Suc (length s)) s = Some (v, r)"
  using parse_fuel [of m, THEN conjunct1, rule_format, of s v r "Suc (length s)"] by simp

lemma JSON_parse_any_bound:
  assumes "parse_value m s = Some (v, r)" and "skip_ws r = []"
  shows "JSON_parse s = Inr v"
proof -
  from assms(1) have "parse_value (Suc (length s)) s = Some (v, r)"
    by (rule JSON_parse_fuel)
  with assms(2) show ?thesis
    by (simp only: JSON_parse_def option.case prod.case simp_thms if_True)
qed

section \<open>One subscription per name\<close>

text \<open>C1: \<open>upsert\<close> on a name that already has a subscription installs a second one and
  leaves the first alive. From a new manager without storage, for every helper, name,
  pair of controls and pair of configurations, after two calls of \<open>upsert\<close> on the name the
  subscriptions 0 and 1 are both live on it, the registry holds the second only, and an
  emission reaching the first still writes the store entry of the name.\<close>

theorem upsert_twice_two_live_subscriptions:
  "live_subscriptions name
     (state_of (upsert h name r2 c2 (state_of (upsert h name r1 c1 (new_manager cfg cs None)))))
     = [0, 1]
   \<and> map_of (valueChangesSS
        (state_of (upsert h name r2 c2 (state_of (upsert h name r1 c1 (new_manager cfg cs None))))))
        name = Some 1
   \<and> own_prop (store (occur h (Deliver 0)
        (state_of (upsert h name r2 c2 (state_of (upsert h name r1 c1 (new_manager cfg cs None)))))))
        name
      = toStore h name
          (controls
             (state_of (upsert h name r2 c2 (state_of (upsert h name r1 c1 (new_manager cfg cs None)))))
             r1)"
proof -
  let ?s0 = "new_manager cfg cs None :: ('a, 'b) world"
  have ls0: "localStorage ?s0 = None" and subs0: "subscriptions ?s0 = []"
    and vc0: "valueChangesSS ?s0 = []"
    by (simp_all add: new_manager_def)
  from upsert_no_storage [OF ls0, of h name r1 c1]
  obtain s1 where u1: "upsert h name r1 c1 ?s0 = Returns s1"
    and subs1: "subscriptions s1 =
        [\<lparr>sub_name = name, sub_control = r1, sub_config = merge_config (config ?s0) c1, closed = False\<rparr>]"
    and vc1: "valueChangesSS s1 = AList.update name 0 []"
    and ls1: "localStorage s1 = None"
    using subs0 vc0 by auto
  from upsert_no_storage [OF ls1, of h name r2 c2]
  obtain s2 where u2: "upsert h name r2 c2 s1 = Returns s2"
    and subs2: "subscriptions s2 =
        [\<lparr>sub_name = name, sub_control = r1, sub_config = merge_config (config ?s0) c1, closed = False\<rparr>,
         \<lparr>sub_name = name, sub_control = r2, sub_config = merge_config (config s1) c2, closed = False\<rparr>]"
    and vc2: "valueChangesSS s2 = AList.update name 1 (AList.update name 0 [])"
    and ls2: "localStorage s2 = None"
    using subs1 vc1 by auto
  have live: "live_subscriptions name s2 = [0, 1]"
    by (simp add: live_subscriptions_def subs2 upt_rec)
  have handle: "map_of (valueChangesSS s2) name = Some 1"
    by (simp add: vc2)
  have writes: "own_prop (store (occur h (Deliver 0) s2)) name = toStore h name (controls s2 r1)"
    by (simp add: deliver_def callback_def updateStore_def Let_def subs2 ls2)
  from live handle writes show ?thesis
    by (simp add: u1 u2)
qed

section \<open>Reading the persisted blob\<close>

lemma JSON_parse_empty_object: "JSON_parse ''{}'' = Inr (JObj [])"
  by (simp add: JSON_parse_def skip_ws_def is_ws_def)

text \<open>C2, as the code has it: \<open>getFromStorage\<close> returns the parsed value when the
  stored string is well-formed JSON and the empty mapping when the key is absent or holds
  the empty string; when the stored string is not well-formed, the \<open>SyntaxError\<close> of
  \<open>JSON.parse\<close> is raised, and no empty mapping is returned.\<close>

theorem getFromStorage_result:
  "getFromStorage key s =
     (case localStorage s of
        None \<Rightarrow> Inl ReferenceError
      | Some ls \<Rightarrow>
          (case map_of ls key of
             None \<Rightarrow> Inr (JObj [])
           | Some str \<Rightarrow> if str = [] then Inr (JObj []) else JSON_parse str))"
  by (simp add: getFromStorage_def JSON_parse_empty_object split: option.splits)

text \<open>C2 at a stored blob with an entry for \<open>login\<close>, and at empty storage.\<close>

theorem getFromStorage_result_witness:
  "getFromStorage ''ngFormsManager''
     (new_manager defaults no_controls
        (Some [(''ngFormsManager'', ''{\"login\":{\"value\":\"a\"}}'')]))
   = Inr (JObj [(''login'', JObj [(''value'', JStr ''a'')])])
   \<and> getFromStorage ''ngFormsManager'' (new_manager defaults no_controls (Some []))
     = Inr (JObj [])"
proof -
  have parsed: "JSON_parse ''{\"login\":{\"value\":\"a\"}}''
      = Inr (JObj [(''login'', JObj [(''value'', JStr ''a'')])])"
    by code_simp
  show ?thesis
    using getFromStorage_result [of "''ngFormsManager''"
        "new_manager defaults no_controls
           (Some [(''ngFormsManager'', ''{\"login\":{\"value\":\"a\"}}'')])"]
      getFromStorage_result [of "''ngFormsManager''" "new_manager defaults no_controls (Some [])"]
    by (simp add: new_manager_def parsed)
qed

text \<open>C2, as the spec states it, fails: with the one-character string \<open>{\<close> stored under
  the key, reading raises \<open>SyntaxError\<close>.\<close>

theorem getFromStorage_unparsable_raises:
  "getFromStorage ''ngFormsManager''
     (new_manager defaults no_controls (Some [(''ngFormsManager'', ''{'')])) = Inl SyntaxError"
  by (simp add: getFromStorage_def new_manager_def JSON_parse_def skip_ws_def is_ws_def)

section \<open>Persistence without storage\<close>

text \<open>C3: where \<open>localStorage\<close> does not exist, \<open>clear\<close>, with or without a name, raises
  \<open>ReferenceError\<close> from \<open>removeFromStorage\<close>, after it has changed the store and before
  it removes any initial value; \<open>updateStorage\<close>, which tests \<open>isBrowser\<close> first, skips the
  write and returns.\<close>

theorem clear_without_storage_raises:
  "clear name (s\<lparr>localStorage := None\<rparr>) =
     Throws ReferenceError
       (if given name
        then FormsStore_set (deleteControl (store s) (coerceArray name)) (s\<lparr>localStorage := None\<rparr>)
        else FormsStore_set [] (s\<lparr>localStorage := None\<rparr>))
   \<and> updateStorage h n v cfg (s\<lparr>localStorage := None\<rparr>) = Returns (s\<lparr>localStorage := None\<rparr>)"
  by (simp add: clear_def removeFromStorage_def localStorage_setItem_def FormsStore_set_def
      updateStorage_def isBrowser_def)

section \<open>The store entry after upsert\<close>









section \<open>unsubscribe\<close>

lemma recorded_iff:
  "recorded s \<longleftrightarrow>
     (\<forall>i < length (subscriptions s).
        closed (subscriptions s ! i)
        \<or> map_of (valueChangesSS s) (sub_name (subscriptions s ! i)) = Some i)"
  by (auto simp: recorded_def list_all_iff)

lemma live_subscriptions_empty_iff:
  "live_subscriptions name s = [] \<longleftrightarrow>
     (\<forall>i < length (subscriptions s).
        sub_name (subscriptions s ! i) = name \<longrightarrow> closed (subscriptions s ! i))"
  by (auto simp: live_subscriptions_def filter_empty_conv)

lemma Subscription_unsubscribe_fields [simp]:
  "store (Subscription_unsubscribe i s) = store s"
  "valueChangesSS (Subscription_unsubscribe i s) = valueChangesSS s"
  "instancesSS (Subscription_unsubscribe i s) = instancesSS s"
  "destroySS (Subscription_unsubscribe i s) = destroySS s"
  "length (subscriptions (Subscription_unsubscribe i s)) = length (subscriptions s)"
  by (simp_all add: Subscription_unsubscribe_def)

lemma destroy_next_fields [simp]:
  "store (destroy_next a s) = store s"
  "valueChangesSS (destroy_next a s) = valueChangesSS s"
  "instancesSS (destroy_next a s) = instancesSS s"
  "subscriptions (destroy_next a s) = subscriptions s"
  "destroySS (destroy_next a s) = destroySS s @ [a]"
  by (simp_all add: destroy_next_def)

lemma Subscription_unsubscribe_nth:
  "j < length (subscriptions s) \<Longrightarrow>
     sub_name (subscriptions (Subscription_unsubscribe i s) ! j) = sub_name (subscriptions s ! j)
     \<and> closed (subscriptions (Subscription_unsubscribe i s) ! j)
         = (closed (subscriptions s ! j) \<or> j = i)"
  by (cases "j = i") (simp_all add: Subscription_unsubscribe_def)

lemma unsubscribe_one_fields:
  "store (unsubscribe_one n s) = store s"
  "valueChangesSS (unsubscribe_one n s) = AList.delete n (valueChangesSS s)"
  "instancesSS (unsubscribe_one n s) = AList.delete n (instancesSS s)"
  "destroySS (unsubscribe_one n s) = destroySS s @ [n]"
  "length (subscriptions (unsubscribe_one n s)) = length (subscriptions s)"
  by (simp_all add: unsubscribe_one_def destroy_next_def Let_def split: option.splits)

lemma unsubscribe_one_nth:
  "j < length (subscriptions s) \<Longrightarrow>
     sub_name (subscriptions (unsubscribe_one n s) ! j) = sub_name (subscriptions s ! j)
     \<and> closed (subscriptions (unsubscribe_one n s) ! j)
         = (closed (subscriptions s ! j) \<or> map_of (valueChangesSS s) n = Some j)"
  by (auto simp: unsubscribe_one_def destroy_next_def Let_def Subscription_unsubscribe_nth
      split: option.splits)

lemma deliver_state:
  "subscriptions (state_of (deliver h i s)) = subscriptions s
   \<and> valueChangesSS (state_of (deliver h i s)) = valueChangesSS s
   \<and> store (state_of (deliver h i s)) =
       (if i < length (subscriptions s) \<and> \<not> closed (subscriptions s ! i)
        then AList.update (sub_name (subscriptions s ! i))
               (toStore h (sub_name (subscriptions s ! i)) (controls s (sub_control (subscriptions s ! i))))
               (store s)
        else store s)"
  by (simp add: deliver_def callback_def updateStore_def Let_def updateStorage_state)

lemma occur_state:
  "subscriptions (occur h e s) = subscriptions s
   \<and> valueChangesSS (occur h e s) = valueChangesSS s"
  by (cases e) (simp_all add: deliver_state)

lemma occur_store_other:
  "live_subscriptions name s = [] \<Longrightarrow> own_prop (store (occur h e s)) name = own_prop (store s) name"
  by (cases e) (auto simp: deliver_state live_subscriptions_empty_iff)

lemma occur_all_store_other:
  "live_subscriptions name s = [] \<Longrightarrow>
     own_prop (store (occur_all h evs s)) name = own_prop (store s) name"
proof (induction evs arbitrary: s)
  case Nil
  then show ?case by (simp add: occur_all_def)
next
  case (Cons e evs)
  have "live_subscriptions name (occur h e s) = []"
    using Cons.prems by (simp add: live_subscriptions_empty_iff occur_state)
  from Cons.IH [OF this] occur_store_other [OF Cons.prems, of h e]
  show ?case by (simp add: occur_all_def)
qed

lemma occur_store_closed:
  "list_all closed (subscriptions s) \<Longrightarrow> store (occur h e s) = store s"
  by (cases e) (auto simp: deliver_state list_all_length)

lemma occur_all_store_closed:
  "list_all closed (subscriptions s) \<Longrightarrow> store (occur_all h evs s) = store s"
proof (induction evs arbitrary: s)
  case Nil
  then show ?case by (simp add: occur_all_def)
next
  case (Cons e evs)
  have "list_all closed (subscriptions (occur h e s))"
    using Cons.prems by (simp add: occur_state)
  from Cons.IH [OF this] occur_store_closed [OF Cons.prems, of h e]
  show ?case by (simp add: occur_all_def)
qed

lemma fold_all_state:
  "valueChangesSS (fold (\<lambda>entry w. destroy_next a (Subscription_unsubscribe (snd entry) w)) es s)
      = valueChangesSS s
   \<and> store (fold (\<lambda>entry w. destroy_next a (Subscription_unsubscribe (snd entry) w)) es s) = store s
   \<and> destroySS (fold (\<lambda>entry w. destroy_next a (Subscription_unsubscribe (snd entry) w)) es s)
      = destroySS s @ replicate (length es) a
   \<and> length (subscriptions (fold (\<lambda>entry w. destroy_next a (Subscription_unsubscribe (snd entry) w)) es s))
      = length (subscriptions s)"
proof (induction es arbitrary: s)
  case Nil
  then show ?case by simp
next
  case (Cons e es)
  show ?case
    by (simp add: Cons.IH replicate_append_same)
qed

lemma fold_all_closed:
  "j < length (subscriptions s) \<Longrightarrow>
     closed (subscriptions (fold (\<lambda>entry w. destroy_next a (Subscription_unsubscribe (snd entry) w)) es s) ! j)
       = (closed (subscriptions s ! j) \<or> j \<in> snd ` set es)"
proof (induction es arbitrary: s)
  case Nil
  then show ?case by simp
next
  case (Cons e es)
  have len: "j < length (subscriptions (destroy_next a (Subscription_unsubscribe (snd e) s)))"
    using Cons.prems by simp
  have here: "closed (subscriptions (destroy_next a (Subscription_unsubscribe (snd e) s)) ! j)
      = (closed (subscriptions s ! j) \<or> j = snd e)"
    using Subscription_unsubscribe_nth [OF Cons.prems, of "snd e"] by simp
  show ?case
    using Cons.IH [OF len] here by auto
qed

lemma unsubscribe_all_closed:
  assumes inv: "recorded s"
  shows "list_all closed (subscriptions (unsubscribe None s))"
proof -
  let ?f = "fold (\<lambda>entry w. destroy_next ''$$ALL'' (Subscription_unsubscribe (snd entry) w))
              (valueChangesSS s) s"
  have subs_all: "subscriptions (unsubscribe None s) = subscriptions ?f"
    by (simp add: unsubscribe_def Let_def)
  show ?thesis
    unfolding list_all_length subs_all
  proof (intro allI impI)
    fix j
    assume "j < length (subscriptions ?f)"
    then have j: "j < length (subscriptions s)"
      by (simp add: fold_all_state)
    from inv j have "closed (subscriptions s ! j)
        \<or> map_of (valueChangesSS s) (sub_name (subscriptions s ! j)) = Some j"
      by (simp add: recorded_iff)
    then have "closed (subscriptions s ! j) \<or> j \<in> snd ` set (valueChangesSS s)"
      by (force dest: map_of_SomeD)
    with fold_all_closed [OF j, of "''$$ALL''" "valueChangesSS s"]
    show "closed (subscriptions ?f ! j)"
      by blast
  qed
qed

text \<open>C5, as the code has it, in a state where every live subscription is the one
  the registry holds for its name. \<open>unsubscribe(name)\<close>, for a non-empty name, removes the
  name from both registries, leaves no live subscription on it, sends the name on the
  destroy stream once, so that \<open>controlDestroyed(name)\<close> emits once more, and no later change
  of a control or emission changes the store entry of the name. \<open>unsubscribe()\<close> empties
  both registries, cancels every subscription, sends the sentinel once for each
  subscription the registry held, and no later event changes the store.\<close>

theorem unsubscribe_effect:
  assumes inv: "recorded s"
  shows "(name \<noteq> [] \<longrightarrow>
           map_of (valueChangesSS (unsubscribe (Some (Key name)) s)) name = None
           \<and> map_of (instancesSS (unsubscribe (Some (Key name)) s)) name = None
           \<and> live_subscriptions name (unsubscribe (Some (Key name)) s) = []
           \<and> destroySS (unsubscribe (Some (Key name)) s) = destroySS s @ [name]
           \<and> controlDestroyed name (unsubscribe (Some (Key name)) s) = controlDestroyed name s @ [name]
           \<and> own_prop (store (occur_all h evs (unsubscribe (Some (Key name)) s))) name
               = own_prop (store s) name)
       \<and> valueChangesSS (unsubscribe None s) = []
       \<and> instancesSS (unsubscribe None s) = []
       \<and> list_all closed (subscriptions (unsubscribe None s))
       \<and> destroySS (unsubscribe None s)
           = destroySS s @ replicate (length (valueChangesSS s)) ''$$ALL''
       \<and> store (occur_all h evs (unsubscribe None s)) = store s"
proof -
  let ?one = "unsubscribe (Some (Key name)) s"
  let ?all = "unsubscribe None s"
  have one: "?one = unsubscribe_one name s" if "name \<noteq> []"
    using that by (simp add: unsubscribe_def)
  have dead: "live_subscriptions name (unsubscribe_one name s) = []"
    unfolding live_subscriptions_empty_iff
  proof (intro allI impI)
    fix i
    assume i: "i < length (subscriptions (unsubscribe_one name s))"
      and n: "sub_name (subscriptions (unsubscribe_one name s) ! i) = name"
    from i have i': "i < length (subscriptions s)"
      by (simp add: unsubscribe_one_fields)
    from inv i' have "closed (subscriptions s ! i)
        \<or> map_of (valueChangesSS s) (sub_name (subscriptions s ! i)) = Some i"
      by (simp add: recorded_iff)
    with unsubscribe_one_nth [OF i', of name] n
    show "closed (subscriptions (unsubscribe_one name s) ! i)"
      by auto
  qed
  have single: "name \<noteq> [] \<longrightarrow>
           map_of (valueChangesSS ?one) name = None
           \<and> map_of (instancesSS ?one) name = None
           \<and> live_subscriptions name ?one = []
           \<and> destroySS ?one = destroySS s @ [name]
           \<and> controlDestroyed name ?one = controlDestroyed name s @ [name]
           \<and> own_prop (store (occur_all h evs ?one)) name = own_prop (store s) name"
    using dead occur_all_store_other [OF dead, of h evs]
    by (simp add: one unsubscribe_one_fields delete_conv' controlDestroyed_def)
  have all_closed: "list_all closed (subscriptions ?all)"
    using inv by (rule unsubscribe_all_closed)
  have rest: "valueChangesSS ?all = [] \<and> instancesSS ?all = []
       \<and> destroySS ?all = destroySS s @ replicate (length (valueChangesSS s)) ''$$ALL''
       \<and> store ?all = store s"
    by (simp add: unsubscribe_def Let_def fold_all_state)
  from single all_closed rest occur_all_store_closed [OF all_closed, of h evs]
  show ?thesis by simp
qed

text \<open>C5 at the manager with \<open>a\<close> and \<open>b\<close> registered: typing into the first control
  changes the entry of \<open>a\<close> before \<open>unsubscribe('a')\<close> and no longer after it.\<close>

theorem unsubscribe_effect_witness:
  "recorded registered_ab
   \<and> live_subscriptions ''a'' registered_ab = [0]
   \<and> live_subscriptions ''a'' (unsubscribe (Some (Key ''a'')) registered_ab) = []
   \<and> controlDestroyed ''a'' registered_ab = []
   \<and> controlDestroyed ''a'' (unsubscribe (Some (Key ''a'')) registered_ab)
       = controlDestroyed ''a'' registered_ab @ [''a'']
   \<and> own_prop (store (occur_all leaf_deps typing (unsubscribe (Some (Key ''a'')) registered_ab))) ''a''
       = own_prop (store registered_ab) ''a''
   \<and> own_prop (store (occur_all leaf_deps typing registered_ab)) ''a''
       = leaf_toStore ''a'' (text_control ''z'' True)
   \<and> list_all closed (subscriptions (unsubscribe None registered_ab))"
proof -
  have inv: "recorded registered_ab"
    by code_simp
  have live: "live_subscriptions ''a'' registered_ab = [0]"
    by code_simp
  have quiet: "controlDestroyed ''a'' registered_ab = []"
    by code_simp
  have written: "own_prop (store (occur_all leaf_deps typing registered_ab)) ''a''
       = leaf_toStore ''a'' (text_control ''z'' True)"
    by code_simp
  have named: "''a'' \<noteq> []"
    by simp
  from unsubscribe_effect [OF inv, of "''a''" leaf_deps typing] named inv live quiet written
  show ?thesis by blast
qed

text \<open>C5, as the spec states it, fails for \<open>unsubscribe()\<close>: with two names registered
  \<open>controlDestroyed('a')\<close> emits twice, and with none registered nothing is sent.\<close>

theorem unsubscribe_all_signals:
  "controlDestroyed ''a'' registered_ab = []
   \<and> controlDestroyed ''a'' (unsubscribe None registered_ab) = [''$$ALL'', ''$$ALL'']
   \<and> controlDestroyed ''a'' (unsubscribe None example_world) = []"
  by code_simp

text \<open>The hypothesis of C5 holds of a new manager and is kept by every operation, as long
  as \<open>upsert\<close> is not called on a name that still has a live subscription.\<close>

lemma recorded_new_manager: "recorded (new_manager cfg cs ls)"
  by (simp add: recorded_def new_manager_def)

lemma recorded_upsert:
  assumes inv: "recorded s"
    and free: "live_subscriptions name s = []"
    and ret: "upsert h name ref cfg s = Returns s'"
  shows "recorded s'"
  unfolding recorded_iff
proof (intro allI impI)
  fix i
  assume i: "i < length (subscriptions s')"
  note reg = upsert_registry [OF ret]
  show "closed (subscriptions s' ! i)
      \<or> map_of (valueChangesSS s') (sub_name (subscriptions s' ! i)) = Some i"
  proof (cases "i < length (subscriptions s)")
    case True
    with reg have same: "subscriptions s' ! i = subscriptions s ! i"
      by (simp add: nth_append)
    from inv True have old: "closed (subscriptions s ! i)
        \<or> map_of (valueChangesSS s) (sub_name (subscriptions s ! i)) = Some i"
      by (simp add: recorded_iff)
    from free True have "sub_name (subscriptions s ! i) = name \<longrightarrow> closed (subscriptions s ! i)"
      by (simp add: live_subscriptions_empty_iff)
    with old same reg show ?thesis
      by (auto simp: update_conv')
  next
    case False
    with i reg have "i = length (subscriptions s)" by simp
    with reg show ?thesis by (simp add: update_conv')
  qed
qed

lemma recorded_unsubscribe_one: "recorded s \<Longrightarrow> recorded (unsubscribe_one n s)"
  unfolding recorded_iff
proof (intro allI impI)
  fix i
  assume inv: "\<forall>i<length (subscriptions s). closed (subscriptions s ! i)
        \<or> map_of (valueChangesSS s) (sub_name (subscriptions s ! i)) = Some i"
    and "i < length (subscriptions (unsubscribe_one n s))"
  then have i: "i < length (subscriptions s)" by (simp add: unsubscribe_one_fields)
  from inv i have "closed (subscriptions s ! i)
        \<or> map_of (valueChangesSS s) (sub_name (subscriptions s ! i)) = Some i"
    by simp
  with unsubscribe_one_nth [OF i, of n]
  show "closed (subscriptions (unsubscribe_one n s) ! i)
      \<or> map_of (valueChangesSS (unsubscribe_one n s))
           (sub_name (subscriptions (unsubscribe_one n s) ! i)) = Some i"
    by (auto simp: unsubscribe_one_fields delete_conv')
qed

lemma recorded_fold_unsubscribe_one: "recorded s \<Longrightarrow> recorded (fold unsubscribe_one ns s)"
  by (induction ns arbitrary: s) (simp_all add: recorded_unsubscribe_one)

lemma recorded_occur: "recorded (occur h e s) = recorded s"
  by (simp add: recorded_def occur_state)

lemma recorded_unsubscribe: "recorded s \<Longrightarrow> recorded (unsubscribe k s)"
proof (cases "given k")
  case True
  assume "recorded s"
  with True show ?thesis
    by (simp add: unsubscribe_def recorded_fold_unsubscribe_one)
next
  case False
  assume "recorded s"
  then have "list_all closed (subscriptions (unsubscribe None s))"
    by (rule unsubscribe_all_closed)
  moreover from False have "unsubscribe k s = unsubscribe None s"
    by (simp add: unsubscribe_def)
  ultimately show ?thesis
    by (simp add: recorded_iff list_all_length)
qed

lemma recorded_clear: "recorded (state_of (clear k s)) = recorded s"
  by (simp add: recorded_def clear_def removeFromStorage_def localStorage_setItem_def
      FormsStore_set_def removeInitialValue_def split: option.splits)

section \<open>Re-hydration from storage\<close>

lemma mergeDeep_leaf: "\<not> is_object v \<Longrightarrow> mergeDeep t v = v"
  by (cases t; cases v) simp_all

lemma merge_props_other:
  "k \<notin> fst ` set s \<Longrightarrow> map_of (merge_props t s) k = map_of t k"
  by (induction s arbitrary: t) (auto simp: update_conv')

lemma merge_props_leaf:
  "distinct (map fst s) \<Longrightarrow> map_of s k = Some v \<Longrightarrow> \<not> is_object v
     \<Longrightarrow> map_of (merge_props t s) k = Some v"
proof (induction s arbitrary: t)
  case Nil
  then show ?case by simp
next
  case (Cons p s)
  obtain k' v' where p: "p = (k', v')" by (cases p)
  show ?case
  proof (cases "k = k'")
    case True
    with Cons.prems p have v: "v' = v" and notin: "k \<notin> fst ` set s" by auto
    from notin have "map_of (merge_props (AList.update k' (mergeDeep (own_prop t k') v') t) s) k
        = map_of (AList.update k' (mergeDeep (own_prop t k') v') t) k"
      by (rule merge_props_other)
    with True v Cons.prems(3) p show ?thesis by (simp add: mergeDeep_leaf update_conv')
  next
    case False
    with Cons.prems p have "distinct (map fst s)" and "map_of s k = Some v" by auto
    with Cons.IH Cons.prems(3) p show ?thesis by simp
  qed
qed

text \<open>C6, as the code has it: where storage exists, the call's own configuration
  sets \<open>persistState\<close>, \<open>hasControl(name)\<close> is false and the persisted blob is an object, the
  re-hydration step of \<open>upsert\<close> tests the value that the blob holds under the name. When
  it is truthy, the step writes the deep merge of that value over the snapshot of the
  control into the store, before the rest of \<open>upsert\<close> runs; \<open>upsert\<close> returns and
  \<open>getControl(name)\<close> is that merge. When it is falsy, the step changes nothing. In the
  merge of an object over a snapshot, a persisted field that is not an object wins, and a
  field of the snapshot that the persisted entry lacks is kept.\<close>

theorem upsert_rehydrates:
  assumes browser: "localStorage s = Some ls"
    and requested: "u_persistState cfg = Some True"
    and fresh: "hasControl h name None s = False"
    and blob: "getFromStorage (storage_key (merge_config (config s) cfg)) s = Inr (JObj blob)"
  shows "(truthy (obj_prop blob name) \<longrightarrow>
           upsert_rehydrate h name ref cfg (merge_config (config s) cfg)
             (upsert_initial h name ref (merge_config (config s) cfg) s)
           = Returns (FormsStore_update name
               (mergeDeep (toStore h name (controls s ref)) (obj_prop blob name))
               (upsert_initial h name ref (merge_config (config s) cfg) s))
           \<and> (\<exists>s'. upsert h name ref cfg s = Returns s'
                 \<and> getControl h name None s'
                     = mergeDeep (toStore h name (controls s ref)) (obj_prop blob name)))
       \<and> (\<not> truthy (obj_prop blob name) \<longrightarrow>
           upsert_rehydrate h name ref cfg (merge_config (config s) cfg)
             (upsert_initial h name ref (merge_config (config s) cfg) s)
           = Returns (upsert_initial h name ref (merge_config (config s) cfg) s))
       \<and> (distinct (map fst e) \<and> map_of e k = Some v \<and> \<not> is_object v \<longrightarrow>
             get_prop (mergeDeep (JObj snap) (JObj e)) k = Inr v)
       \<and> (k \<notin> fst ` set e \<longrightarrow>
             get_prop (mergeDeep (JObj snap) (JObj e)) k = Inr (obj_prop snap k))"
proof -
  let ?mc = "merge_config (config s) cfg"
  let ?s1 = "upsert_initial h name ref ?mc s"
  let ?m = "mergeDeep (toStore h name (controls s ref)) (obj_prop blob name)"
  let ?s2 = "FormsStore_update name ?m ?s1"
  have merged: "upsert_rehydrate h name ref cfg ?mc ?s1 = Returns ?s2
        \<and> (\<exists>s'. upsert h name ref cfg s = Returns s' \<and> getControl h name None s' = ?m)"
    if present: "truthy (obj_prop blob name)"
  proof -
    have step: "upsert_rehydrate h name ref cfg ?mc ?s1 = Returns ?s2"
      using browser requested fresh blob present
      by (simp add: upsert_rehydrate_def isBrowser_def)
    have "truthy ?m"
      using present by (rule truthy_mergeDeep)
    then have reg: "hasControl h name None ?s2 = True"
      by (simp add: hasControl_def getControl_def)
    from upsert_registered [OF reg, of ref ?mc]
    obtain v' c where sync: "upsert_sync h name ref ?mc ?s2 =
        Returns (?s2\<lparr>controls := (controls ?s2)(ref := patchValue h c v')\<rparr>)"
      by blast
    have "\<exists>s'. upsert h name ref cfg s = Returns s' \<and> getControl h name None s' = ?m"
      by (simp add: upsert_def Let_def step sync getControl_def)
    with step show ?thesis by blast
  qed
  have skipped: "upsert_rehydrate h name ref cfg ?mc ?s1 = Returns ?s1"
    if "\<not> truthy (obj_prop blob name)"
    using browser requested fresh blob that
    by (simp add: upsert_rehydrate_def isBrowser_def)
  have leaf: "distinct (map fst e) \<and> map_of e k = Some v \<and> \<not> is_object v \<longrightarrow>
             get_prop (mergeDeep (JObj snap) (JObj e)) k = Inr v"
    by (simp add: merge_props_leaf obj_prop_own)
  have other: "k \<notin> fst ` set e \<longrightarrow>
             get_prop (mergeDeep (JObj snap) (JObj e)) k = Inr (obj_prop snap k)"
    by (simp add: merge_props_other obj_prop_def)
  from merged skipped leaf other show ?thesis by blast
qed

text \<open>C6 at storage that holds \<open>{"login":{"value":"saved"}}\<close>: the store entry of \<open>login\<close>
  gets the saved value and the flags of the control; and at storage that holds
  \<open>{"login":null}\<close>: nothing is merged.\<close>

theorem upsert_rehydrates_witness:
  "localStorage saved_world = Some saved_login
   \<and> u_persistState persisting = Some True
   \<and> hasControl leaf_deps ''login'' None saved_world = False
   \<and> getFromStorage (storage_key (merge_config (config saved_world) persisting)) saved_world
       = Inr (JObj [(''login'', JObj [(''value'', JStr ''saved'')])])
   \<and> obj_prop [(''login'', JObj [(''value'', JStr ''saved'')])] ''login'' = JObj [(''value'', JStr ''saved'')]
   \<and> returned (upsert leaf_deps ''login'' 0 persisting saved_world)
   \<and> getControl leaf_deps ''login'' None (state_of (upsert leaf_deps ''login'' 0 persisting saved_world))
       = mergeDeep (toStore leaf_deps ''login'' (controls saved_world 0))
           (JObj [(''value'', JStr ''saved'')])
   \<and> mergeDeep (toStore leaf_deps ''login'' (controls saved_world 0))
           (JObj [(''value'', JStr ''saved'')])
       = JObj [(''value'', JStr ''saved''), (''valid'', JBool True), (''dirty'', JBool True),
               (''disabled'', JBool False), (''errors'', JNull)]
   \<and> get_prop (mergeDeep (JObj [(''value'', JStr ''a''), (''valid'', JBool True)])
                 (JObj [(''value'', JStr ''saved'')])) ''value'' = Inr (JStr ''saved'')
   \<and> get_prop (mergeDeep (JObj [(''value'', JStr ''a''), (''valid'', JBool True)])
                 (JObj [(''value'', JStr ''saved'')])) ''valid'' = Inr (JBool True)
   \<and> getFromStorage (storage_key (merge_config (config null_entry_world) persisting)) null_entry_world
       = Inr (JObj [(''login'', JNull)])
   \<and> upsert_rehydrate leaf_deps ''login'' 0 persisting (merge_config (config null_entry_world) persisting)
         (upsert_initial leaf_deps ''login'' 0 (merge_config (config null_entry_world) persisting)
            null_entry_world)
       = Returns (upsert_initial leaf_deps ''login'' 0 (merge_config (config null_entry_world) persisting)
            null_entry_world)"
proof -
  have browser: "localStorage saved_world = Some saved_login"
    by (simp add: saved_world_def new_manager_def)
  have requested: "u_persistState persisting = Some True"
    by (simp add: persisting_def)
  have fresh: "hasControl leaf_deps ''login'' None saved_world = False"
    by code_simp
  have blob: "getFromStorage (storage_key (merge_config (config saved_world) persisting)) saved_world
       = Inr (JObj [(''login'', JObj [(''value'', JStr ''saved'')])])"
    by code_simp
  have entry: "obj_prop [(''login'', JObj [(''value'', JStr ''saved'')])] ''login''
       = JObj [(''value'', JStr ''saved'')]"
    by code_simp
  have merged: "mergeDeep (toStore leaf_deps ''login'' (controls saved_world 0))
           (JObj [(''value'', JStr ''saved'')])
       = JObj [(''value'', JStr ''saved''), (''valid'', JBool True), (''dirty'', JBool True),
               (''disabled'', JBool False), (''errors'', JNull)]"
    by code_simp
  have leaf: "distinct (map fst [(''value'', JStr ''saved'')])
      \<and> map_of [(''value'', JStr ''saved'')] ''value'' = Some (JStr ''saved'')
      \<and> \<not> is_object (JStr ''saved'')"
    by simp
  have other: "''valid'' \<notin> fst ` set [(''value'', JStr ''saved'')]"
    by simp
  have kept_value: "obj_prop [(''value'', JStr ''a''), (''valid'', JBool True)] ''valid'' = JBool True"
    by code_simp
  have browser0: "localStorage null_entry_world = Some [(''ngFormsManager'', ''{\"login\":null}'')]"
    by (simp add: null_entry_world_def new_manager_def)
  have fresh0: "hasControl leaf_deps ''login'' None null_entry_world = False"
    by code_simp
  have blob0: "getFromStorage (storage_key (merge_config (config null_entry_world) persisting))
        null_entry_world = Inr (JObj [(''login'', JNull)])"
    by code_simp
  have falsy: "\<not> truthy (obj_prop [(''login'', JNull)] ''login'')"
    by code_simp
  note inst1 = upsert_rehydrates [OF browser requested fresh blob,
      where ref = 0 and e = "[(''value'', JStr ''saved'')]" and k = "''value''"
        and v = "JStr ''saved''" and snap = "[(''value'', JStr ''a''), (''valid'', JBool True)]"]
  note inst2 = upsert_rehydrates [OF browser requested fresh blob,
      where ref = 0 and e = "[(''value'', JStr ''saved'')]" and k = "''valid''"
        and v = "JStr ''saved''" and snap = "[(''value'', JStr ''a''), (''valid'', JBool True)]"]
  note inst3 = upsert_rehydrates [OF browser0 requested fresh0 blob0,
      where ref = 0 and e = "[]" and k = "''value''" and v = JNull and snap = "[]"]
  have present: "truthy (obj_prop [(''login'', JObj [(''value'', JStr ''saved'')])] ''login'')"
    by (simp add: entry)
  from inst1 present have "\<exists>s'. upsert leaf_deps ''login'' 0 persisting saved_world = Returns s'
             \<and> getControl leaf_deps ''login'' None s'
                 = mergeDeep (toStore leaf_deps ''login'' (controls saved_world 0))
                     (obj_prop [(''login'', JObj [(''value'', JStr ''saved'')])] ''login'')"
    by blast
  then have whole: "returned (upsert leaf_deps ''login'' 0 persisting saved_world)
     \<and> getControl leaf_deps ''login'' None (state_of (upsert leaf_deps ''login'' 0 persisting saved_world))
       = mergeDeep (toStore leaf_deps ''login'' (controls saved_world 0))
           (JObj [(''value'', JStr ''saved'')])"
    by (auto simp: entry)
  from inst1 leaf have wins: "get_prop (mergeDeep (JObj [(''value'', JStr ''a''), (''valid'', JBool True)])
                 (JObj [(''value'', JStr ''saved'')])) ''value'' = Inr (JStr ''saved'')"
    by blast
  from inst2 other have "get_prop (mergeDeep (JObj [(''value'', JStr ''a''), (''valid'', JBool True)])
                 (JObj [(''value'', JStr ''saved'')])) ''valid''
       = Inr (obj_prop [(''value'', JStr ''a''), (''valid'', JBool True)] ''valid'')"
    by blast
  then have kept: "get_prop (mergeDeep (JObj [(''value'', JStr ''a''), (''valid'', JBool True)])
                 (JObj [(''value'', JStr ''saved'')])) ''valid'' = Inr (JBool True)"
    by (simp only: kept_value)
  from inst3 falsy have unmerged: "upsert_rehydrate leaf_deps ''login'' 0 persisting
         (merge_config (config null_entry_world) persisting)
         (upsert_initial leaf_deps ''login'' 0 (merge_config (config null_entry_world) persisting)
            null_entry_world)
       = Returns (upsert_initial leaf_deps ''login'' 0 (merge_config (config null_entry_world) persisting)
            null_entry_world)"
    by blast
  from browser requested fresh blob entry whole merged wins kept blob0 unmerged show ?thesis
    by blast
qed

text \<open>C6, as the spec states it, fails where persistence is enabled by the
  process-wide configuration only: the merged configuration has \<open>persistState\<close> set, the
  store holds nothing under \<open>login\<close>, the persisted blob holds a saved value for it, and
  after \<open>upsert\<close> returns the store entry holds the control's own value, not the saved
  one that the merge would have given it.\<close>

theorem upsert_default_flag_not_rehydrated:
  "persistState (merge_config (config persisting_world) no_config)
   \<and> hasControl leaf_deps ''login'' None persisting_world = False
   \<and> getFromStorage (storage_key (merge_config (config persisting_world) no_config)) persisting_world
       = Inr (JObj [(''login'', JObj [(''value'', JStr ''saved'')])])
   \<and> returned (upsert leaf_deps ''login'' 0 no_config persisting_world)
   \<and> get_prop (getControl leaf_deps ''login'' None
         (state_of (upsert leaf_deps ''login'' 0 no_config persisting_world))) ''value''
       = Inr (JStr ''a'')
   \<and> get_prop (mergeDeep (toStore leaf_deps ''login'' (controls persisting_world 0))
         (JObj [(''value'', JStr ''saved'')])) ''value''
       = Inr (JStr ''saved'')"
  by code_simp

section \<open>Derived streams\<close>















section \<open>clear\<close>

lemma map_of_deleteControl:
  "map_of (deleteControl m names) n = (if n \<in> set names then None else map_of m n)"
  by (induction m) (auto simp: deleteControl_def)


text \<open>C8, as the code has it: where storage exists, \<open>clear()\<close> returns with the
  store empty and the empty mapping written under the storage key; \<open>clear(name)\<close>, for a
  non-empty name or a collection of names, returns with exactly the named entries removed
  from the store and the resulting store written under the storage key; and
  \<open>clear('')\<close>, whose name is falsy, empties the whole store and writes the empty mapping,
  as \<open>clear()\<close> does.\<close>

theorem clear_store_and_storage:
  "localStorage s = Some ls \<Longrightarrow>
     clear None s =
       Returns (s\<lparr>store := [],
                 localStorage := Some (AList.update (storage_key (config s)) ''{}'' ls)\<rparr>)
     \<and> (given (Some k) \<longrightarrow>
          clear (Some k) s =
            Returns (s\<lparr>store := deleteControl (store s) (coerceArray (Some k)),
               localStorage := Some (AList.update (storage_key (config s))
                  (JSON_stringify (JObj (deleteControl (store s) (coerceArray (Some k))))) ls),
               initialValuesSS := fold AList.delete (coerceArray (Some k)) (initialValuesSS s)\<rparr>))
     \<and> map_of (deleteControl (store s) (coerceArray (Some k))) n =
           (if n \<in> set (coerceArray (Some k)) then None else map_of (store s) n)
     \<and> clear (Some (Key [])) s =
         Returns (s\<lparr>store := [],
                   localStorage := Some (AList.update (storage_key (config s)) ''{}'' ls),
                   initialValuesSS := AList.delete [] (initialValuesSS s)\<rparr>)"
  by (simp add: clear_def removeFromStorage_def localStorage_setItem_def FormsStore_set_def
      removeInitialValue_def merge_config_def no_config_def JSON_stringify_def map_of_deleteControl)

text \<open>C8 at the manager with \<open>a\<close> and \<open>b\<close> registered: \<open>clear('a')\<close> leaves \<open>b\<close> in the
  store and in storage, \<open>clear()\<close> leaves the empty mapping in both.\<close>

theorem clear_store_and_storage_witness:
  "localStorage registered_ab = Some []
   \<and> given (Some (Key ''a''))
   \<and> map fst (store registered_ab) = [''a'', ''b'']
   \<and> store (state_of (clear None registered_ab)) = []
   \<and> localStorage (state_of (clear None registered_ab)) = Some [(''ngFormsManager'', ''{}'')]
   \<and> map fst (store (state_of (clear (Some (Key ''a'')) registered_ab))) = [''b'']
   \<and> map_of (store (state_of (clear (Some (Key ''a'')) registered_ab))) ''b''
       = map_of (store registered_ab) ''b''
   \<and> localStorage (state_of (clear (Some (Key ''a'')) registered_ab))
       = Some [(''ngFormsManager'',
           ''{\"b\":{\"value\":\"b\",\"valid\":true,\"dirty\":false,\"disabled\":false,\"errors\":null}}'')]"
proof -
  have browser: "localStorage registered_ab = Some []"
    by code_simp
  have named: "given (Some (Key ''a''))"
    by simp
  have before: "map fst (store registered_ab) = [''a'', ''b'']"
    by code_simp
  have key: "storage_key (config registered_ab) = ''ngFormsManager''"
    by code_simp
  have after: "map fst (deleteControl (store registered_ab) (coerceArray (Some (Key ''a'')))) = [''b'']"
    by code_simp
  have written: "JSON_stringify (JObj (deleteControl (store registered_ab) [''a'']))
      = ''{\"b\":{\"value\":\"b\",\"valid\":true,\"dirty\":false,\"disabled\":false,\"errors\":null}}''"
    by code_simp
  note inst = clear_store_and_storage [OF browser, of "Key ''a''" "''b''"]
  from inst have all: "clear None registered_ab =
       Returns (registered_ab\<lparr>store := [],
                 localStorage := Some (AList.update (storage_key (config registered_ab)) ''{}'' [])\<rparr>)"
    by blast
  from inst named have one: "clear (Some (Key ''a'')) registered_ab =
            Returns (registered_ab\<lparr>store := deleteControl (store registered_ab) (coerceArray (Some (Key ''a''))),
               localStorage := Some (AList.update (storage_key (config registered_ab))
                  (JSON_stringify (JObj (deleteControl (store registered_ab) (coerceArray (Some (Key ''a'')))))) []),
               initialValuesSS := fold AList.delete (coerceArray (Some (Key ''a''))) (initialValuesSS registered_ab)\<rparr>)"
    by blast
  from inst have kept: "map_of (deleteControl (store registered_ab) (coerceArray (Some (Key ''a'')))) ''b''
       = map_of (store registered_ab) ''b''"
    by simp
  show ?thesis
    using browser named before after kept by (simp add: all one key written)
qed

text \<open>C8, as the spec states it, fails for the empty name: with \<open>a\<close> and the empty
  name registered, \<open>clear('')\<close> targets the empty name only and removes the entry of \<open>a\<close>
  as well.\<close>

theorem clear_empty_name_resets_store:
  "map fst (store registered_a_empty) = [''a'', []]
   \<and> coerceArray (Some (Key [])) = [[]]
   \<and> returned (clear (Some (Key [])) registered_a_empty)
   \<and> store (state_of (clear (Some (Key [])) registered_a_empty)) = []
   \<and> map_of (store (state_of (clear (Some (Key [])) registered_a_empty))) ''a'' = None"
  by code_simp

section \<open>The call-site flag of re-hydration\<close>

text \<open>C9, as the code has it: with storage, \<open>persistState\<close> set in the process-wide
  configuration only and absent from the call's, and \<open>hasControl(name)\<close> false, the
  re-hydration step of \<open>upsert\<close> returns the state unchanged, whatever storage holds: it
  neither reads the blob nor merges an entry. The merged configuration still has
  \<open>persistState\<close> set, so \<open>upsert\<close> goes on to read the blob in \<open>updateStorage\<close>: when the
  blob is an object, \<open>upsert\<close> returns with the fresh snapshot in the store, the blob
  rewritten with the name's entry, and a subscription that carries the merged
  configuration; when reading the blob raises, \<open>upsert\<close> raises the same error, after
  writing the store and before subscribing.\<close>

theorem upsert_rehydration_uses_call_config:
  assumes browser: "localStorage s = Some ls"
    and absent: "u_persistState cfg = None"
    and default_on: "persistState (config s)"
    and fresh: "hasControl h name None s = False"
  shows "upsert_rehydrate h name ref cfg (merge_config (config s) cfg)
           (upsert_initial h name ref (merge_config (config s) cfg) s)
         = Returns (upsert_initial h name ref (merge_config (config s) cfg) s)
       \<and> persistState (merge_config (config s) cfg)
       \<and> (getFromStorage (storage_key (merge_config (config s) cfg)) s = Inr (JObj blob) \<longrightarrow>
            (\<exists>s'. upsert h name ref cfg s = Returns s'
               \<and> getControl h name None s' = toStore h name (controls s ref)
               \<and> localStorage s' =
                   Some (AList.update (storage_key (merge_config (config s) cfg))
                     (JSON_stringify
                        (JObj (assign blob name (filterControlKeys h (toStore h name (controls s ref))))))
                     ls)
               \<and> sub_config (last (subscriptions s')) = merge_config (config s) cfg))
       \<and> (getFromStorage (storage_key (merge_config (config s) cfg)) s = Inl err \<longrightarrow>
            upsert h name ref cfg s =
              Throws err (FormsStore_update name (toStore h name (controls s ref))
                (upsert_initial h name ref (merge_config (config s) cfg) s)))"
proof -
  let ?mc = "merge_config (config s) cfg"
  let ?s1 = "upsert_initial h name ref ?mc s"
  have skipped: "upsert_rehydrate h name ref cfg ?mc ?s1 = Returns ?s1"
    using absent by (simp add: upsert_rehydrate_def)
  have merged: "persistState ?mc"
    using absent default_on by (simp add: merge_config_def)
  have written: "getFromStorage (storage_key ?mc) s = Inr (JObj blob) \<longrightarrow>
            (\<exists>s'. upsert h name ref cfg s = Returns s'
               \<and> getControl h name None s' = toStore h name (controls s ref)
               \<and> localStorage s' =
                   Some (AList.update (storage_key ?mc)
                     (JSON_stringify
                        (JObj (assign blob name (filterControlKeys h (toStore h name (controls s ref))))))
                     ls)
               \<and> sub_config (last (subscriptions s')) = ?mc)"
    using merged fresh browser
    by (simp add: upsert_def skipped upsert_sync_def updateStore_def updateStorage_def
        isBrowser_def localStorage_setItem_def upsert_subscribe_def getControl_def Let_def)
  have raised: "getFromStorage (storage_key ?mc) s = Inl err \<longrightarrow>
            upsert h name ref cfg s =
              Throws err (FormsStore_update name (toStore h name (controls s ref)) ?s1)"
    using merged fresh browser
    by (simp add: upsert_def skipped upsert_sync_def updateStore_def updateStorage_def
        isBrowser_def Let_def)
  from skipped merged written raised show ?thesis by blast
qed

text \<open>C9 at storage that holds a saved value for \<open>login\<close>: the store gets the
  control's own value, the saved value is overwritten in storage, and so is the value
  typed later; and at storage whose blob is not well-formed: \<open>upsert\<close> raises.\<close>

theorem upsert_rehydration_uses_call_config_witness:
  "localStorage persisting_world = Some saved_login
   \<and> u_persistState (no_config :: unit UpsertConfig) = None
   \<and> persistState (config persisting_world)
   \<and> hasControl leaf_deps ''login'' None persisting_world = False
   \<and> getFromStorage (storage_key (merge_config (config persisting_world) no_config)) persisting_world
       = Inr (JObj [(''login'', JObj [(''value'', JStr ''saved'')])])
   \<and> returned (upsert leaf_deps ''login'' 0 no_config persisting_world)
   \<and> getControl leaf_deps ''login'' None (state_of (upsert leaf_deps ''login'' 0 no_config persisting_world))
       = toStore leaf_deps ''login'' (controls persisting_world 0)
   \<and> get_prop (toStore leaf_deps ''login'' (controls persisting_world 0)) ''value'' = Inr (JStr ''a'')
   \<and> localStorage (state_of (upsert leaf_deps ''login'' 0 no_config persisting_world))
       = Some [(''ngFormsManager'', ''{\"login\":{\"value\":\"a\"}}'')]
   \<and> localStorage (occur_all leaf_deps typing
         (state_of (upsert leaf_deps ''login'' 0 no_config persisting_world)))
       = Some [(''ngFormsManager'', ''{\"login\":{\"value\":\"z\"}}'')]
   \<and> persistState (config corrupt_world)
   \<and> hasControl leaf_deps ''login'' None corrupt_world = False
   \<and> getFromStorage (storage_key (merge_config (config corrupt_world) no_config)) corrupt_world
       = Inl SyntaxError
   \<and> \<not> returned (upsert leaf_deps ''login'' 0 no_config corrupt_world)"
proof -
  have browser: "localStorage persisting_world = Some saved_login"
    by (simp add: persisting_world_def new_manager_def)
  have browser': "localStorage corrupt_world = Some [(''ngFormsManager'', ''{'')]"
    by (simp add: corrupt_world_def new_manager_def)
  have default_on': "persistState (config corrupt_world)"
    by code_simp
  have fresh': "hasControl leaf_deps ''login'' None corrupt_world = False"
    by code_simp
  have unparsable: "getFromStorage (storage_key (merge_config (config corrupt_world) no_config))
       corrupt_world = Inl SyntaxError"
    by code_simp
  have absent: "u_persistState (no_config :: unit UpsertConfig) = None"
    by (simp add: no_config_def)
  have default_on: "persistState (config persisting_world)"
    by code_simp
  have fresh: "hasControl leaf_deps ''login'' None persisting_world = False"
    by code_simp
  have blob: "getFromStorage (storage_key (merge_config (config persisting_world) no_config)) persisting_world
       = Inr (JObj [(''login'', JObj [(''value'', JStr ''saved'')])])"
    by code_simp
  have fresh_value: "get_prop (toStore leaf_deps ''login'' (controls persisting_world 0)) ''value''
       = Inr (JStr ''a'')"
    by code_simp
  have stored: "localStorage (state_of (upsert leaf_deps ''login'' 0 no_config persisting_world))
       = Some [(''ngFormsManager'', ''{\"login\":{\"value\":\"a\"}}'')]"
    by code_simp
  have later: "localStorage (occur_all leaf_deps typing
         (state_of (upsert leaf_deps ''login'' 0 no_config persisting_world)))
       = Some [(''ngFormsManager'', ''{\"login\":{\"value\":\"z\"}}'')]"
    by code_simp
  from upsert_rehydration_uses_call_config [OF browser absent default_on fresh,
      where ref = 0 and blob = "[(''login'', JObj [(''value'', JStr ''saved'')])]"
        and err = SyntaxError] blob
  have "\<exists>s'. upsert leaf_deps ''login'' 0 no_config persisting_world = Returns s'
         \<and> getControl leaf_deps ''login'' None s'
             = toStore leaf_deps ''login'' (controls persisting_world 0)"
    by blast
  then have whole: "returned (upsert leaf_deps ''login'' 0 no_config persisting_world)
     \<and> getControl leaf_deps ''login'' None (state_of (upsert leaf_deps ''login'' 0 no_config persisting_world))
       = toStore leaf_deps ''login'' (controls persisting_world 0)"
    by auto
  from upsert_rehydration_uses_call_config [OF browser' absent default_on' fresh',
      where ref = 0 and blob = "[]" and err = SyntaxError] unparsable
  have "\<exists>w. upsert leaf_deps ''login'' 0 no_config corrupt_world = Throws SyntaxError w"
    by blast
  then have raised: "\<not> returned (upsert leaf_deps ''login'' 0 no_config corrupt_world)"
    by auto
  from browser absent default_on fresh blob whole fresh_value stored later
    default_on' fresh' unparsable raised
  show ?thesis
    by blast
qed

text \<open>C9, as the spec states it, fails in its clause that \<open>upsert\<close> does not read the
  persisted blob: with \<open>persistState\<close> set process-wide only and the one-character string
  \<open>{\<close> stored under the key, \<open>upsert\<close> raises the \<open>SyntaxError\<close> of reading the blob, after
  it has written the store entry and before it has subscribed.\<close>

theorem upsert_reads_blob_when_persisting:
  "u_persistState (no_config :: unit UpsertConfig) = None
   \<and> persistState (config corrupt_world)
   \<and> hasControl leaf_deps ''login'' None corrupt_world = False
   \<and> \<not> returned (upsert leaf_deps ''login'' 0 no_config corrupt_world)
   \<and> (case upsert leaf_deps ''login'' 0 no_config corrupt_world of
        Returns w \<Rightarrow> False | Throws e w \<Rightarrow> e = SyntaxError)
   \<and> map fst (store (state_of (upsert leaf_deps ''login'' 0 no_config corrupt_world))) = [''login'']
   \<and> subscriptions (state_of (upsert leaf_deps ''login'' 0 no_config corrupt_world)) = []
   \<and> returned (upsert leaf_deps ''login'' 0 no_config
        (corrupt_world\<lparr>localStorage := Some []\<rparr>))"
  by code_simp

section \<open>Initial values and clear\<close>


lemma initialValuesSS_unsubscribe_one [simp]:
  "initialValuesSS (unsubscribe_one n s) = initialValuesSS s"
  by (simp add: unsubscribe_one_def destroy_next_def Subscription_unsubscribe_def Let_def
      split: option.splits)

lemma initialValuesSS_fold_unsubscribe_one [simp]:
  "initialValuesSS (fold unsubscribe_one ns s) = initialValuesSS s"
  by (induction ns arbitrary: s) simp_all

lemma initialValuesSS_fold_all [simp]:
  "initialValuesSS (fold (\<lambda>entry w. destroy_next a (Subscription_unsubscribe (snd entry) w)) es s)
     = initialValuesSS s"
  by (induction es arbitrary: s) (simp_all add: destroy_next_def Subscription_unsubscribe_def)





lemma state_of_and_then:
  "state_of (and_then x k) = (case x of Returns s \<Rightarrow> state_of (k s) | Throws e s \<Rightarrow> s)"
  by (cases x) simp_all






end
